theory Spec2Isabelle
  imports Complex_Main
begin

section \<open>Python values, failures and arrays\<close>

text \<open>
  The model follows \<^verbatim>\<open>SocialNetwork.py\<close>. Floating-point numbers are modelled as exact
  reals; node indices are Python integers (\<^typ>\<open>int\<close>), since the methods receive them
  unchecked. An exception is a value: a pure lookup returns \<open>error + 'a\<close>, and a method
  that mutates the network returns an \<open>outcome\<close> that carries the state reached when the
  method returned or raised (Python keeps every assignment made before the raise).
\<close>

datatype error =
  IndexError | KeyError | AttributeError | ValueError | TypeError | NameError | NetworkXError

datatype 'a outcome = Returned 'a | Raised error 'a

fun final :: "'a outcome \<Rightarrow> 'a" where
  "final (Returned s) = s"
| "final (Raised e s) = s"


fun and_then :: "'a outcome \<Rightarrow> ('a \<Rightarrow> 'a outcome) \<Rightarrow> 'a outcome" where
  "and_then (Returned s) f = f s"
| "and_then (Raised e s) f = Raised e s"

text \<open>A \<^verbatim>\<open>for\<close> loop whose body may raise: the first raise ends the loop.\<close>

fun for_each :: "'b list \<Rightarrow> ('b \<Rightarrow> 'a \<Rightarrow> 'a outcome) \<Rightarrow> 'a \<Rightarrow> 'a outcome" where
  "for_each [] body s = Returned s"
| "for_each (x # xs) body s =
     (case body x s of
        Returned s' \<Rightarrow> for_each xs body s'
      | Raised e s' \<Rightarrow> Raised e s')"

text \<open>A \<^verbatim>\<open>try: ... except: pass\<close> block: the raise is swallowed, the state is kept.\<close>

definition try_pass :: "'a outcome \<Rightarrow> 'a" where
  "try_pass r = final r"

definition bind_e :: "error + 'a \<Rightarrow> ('a \<Rightarrow> error + 'b) \<Rightarrow> error + 'b" where
  "bind_e m f = (case m of Inl e \<Rightarrow> Inl e | Inr x \<Rightarrow> f x)"

text \<open>
  Indexing of a Python list or of a numpy axis of length \<open>len\<close>: an index in
  \<open>-len .. -1\<close> counts from the end, anything outside \<open>-len .. len-1\<close> raises.
\<close>

definition py_index :: "nat \<Rightarrow> int \<Rightarrow> error + nat" where
  "py_index len i =
     (if 0 \<le> i \<and> i < int len then Inr (nat i)
      else if - int len \<le> i \<and> i < 0 then Inr (nat (i + int len))
      else Inl IndexError)"

definition item :: "'a list \<Rightarrow> int \<Rightarrow> error + 'a" where
  "item xs i = bind_e (py_index (length xs) i) (\<lambda>j. Inr (xs ! j))"

definition setitem :: "'a list \<Rightarrow> int \<Rightarrow> 'a \<Rightarrow> error + 'a list" where
  "setitem xs i x = bind_e (py_index (length xs) i) (\<lambda>j. Inr (xs[j := x]))"

definition item2 :: "'a list list \<Rightarrow> int \<Rightarrow> int \<Rightarrow> error + 'a" where
  "item2 m i j = bind_e (item m i) (\<lambda>row. item row j)"

definition setitem2 :: "'a list list \<Rightarrow> int \<Rightarrow> int \<Rightarrow> 'a \<Rightarrow> error + 'a list list" where
  "setitem2 m i j x =
     bind_e (item m i) (\<lambda>row. bind_e (setitem row j x) (\<lambda>row'. setitem m i row'))"

definition item3 :: "'a list list list \<Rightarrow> int \<Rightarrow> int \<Rightarrow> int \<Rightarrow> error + 'a" where
  "item3 t i j k = bind_e (item t i) (\<lambda>m. item2 m j k)"

definition setitem3 ::
  "'a list list list \<Rightarrow> int \<Rightarrow> int \<Rightarrow> int \<Rightarrow> 'a \<Rightarrow> error + 'a list list list" where
  "setitem3 t i j k x =
     bind_e (item t i) (\<lambda>m. bind_e (setitem2 m j k x) (\<lambda>m'. setitem t i m'))"


definition zeros3 :: "nat \<Rightarrow> nat \<Rightarrow> nat \<Rightarrow> real list list list" where
  "zeros3 a b c = replicate a (replicate b (replicate c 0))"

text \<open>
  \<^verbatim>\<open>m.sum(axis=0)\<close> of a two-axis array: the vector of column sums. A numpy array
  is rectangular, so the first row gives the number of columns.
\<close>

definition ncols :: "'a list list \<Rightarrow> nat" where
  "ncols m = (case m of [] \<Rightarrow> 0 | row # _ \<Rightarrow> length row)"

definition sum_axis0 :: "real list list \<Rightarrow> real list" where
  "sum_axis0 m = map (\<lambda>j. sum_list (map (\<lambda>row. row ! j) m)) [0 ..< ncols m]"

text \<open>
  A quotient of numpy floats does not raise on a zero divisor: it gives \<^verbatim>\<open>inf\<close> or
  \<^verbatim>\<open>nan\<close> and a warning. The normalized weights, the only quotients the network
  stores, are therefore either a finite real or not finite.
\<close>

datatype npfloat = Finite real | NotFinite

definition np_div :: "real \<Rightarrow> real \<Rightarrow> npfloat" where
  "np_div x y = (if y = 0 then NotFinite else Finite (x / y))"



text \<open>
  The shared pseudo-random stream of the \<^verbatim>\<open>random\<close> module: the sequence of the
  draws still to come. \<^verbatim>\<open>rnd.random()\<close> takes the next one, a float in \<open>[0, 1)\<close>.
\<close>

type_synonym rnd = "nat \<Rightarrow> real"

definition random :: "rnd \<Rightarrow> real \<times> rnd" where
  "random g = (g 0, \<lambda>i. g (Suc i))"


text \<open>
  \<^verbatim>\<open>rnd.choice([a, b])\<close>: one draw decides between the two entries (the library
  picks the index below 2 from the stream; the model takes the lower half for the first).
\<close>

definition choice2 :: "real \<Rightarrow> real \<Rightarrow> rnd \<Rightarrow> real \<times> rnd" where
  "choice2 a b g = (case random g of (r, g') \<Rightarrow> (if r < 1 / 2 then a else b, g'))"

section \<open>The graph underneath\<close>

text \<open>
  The \<^verbatim>\<open>networkx\<close> graph object: a \<^verbatim>\<open>Graph\<close> (undirected) or a \<^verbatim>\<open>DiGraph\<close>, its
  nodes and its edges in insertion order. An undirected edge is stored once and found
  from both ends. The methods are modelled from the library's documented behaviour:
  \<^verbatim>\<open>add_edge\<close> adds missing end points as nodes; \<^verbatim>\<open>remove_edge\<close> raises when the edge
  is absent; \<^verbatim>\<open>neighbors\<close> and \<^verbatim>\<open>predecessors\<close> raise for a node that is not in the
  graph; a \<^verbatim>\<open>Graph\<close> has no \<^verbatim>\<open>predecessors\<close> method.
\<close>

record graph =
  g_directed :: bool
  g_nodes :: "int list"
  g_edges :: "(int \<times> int) list"

definition new_graph :: "bool \<Rightarrow> graph" where
  "new_graph d = \<lparr> g_directed = d, g_nodes = [], g_edges = [] \<rparr>"

definition add_node :: "int \<Rightarrow> graph \<Rightarrow> graph" where
  "add_node u g = (if u \<in> set (g_nodes g) then g else g\<lparr> g_nodes := g_nodes g @ [u] \<rparr>)"

definition add_nodes_from :: "int list \<Rightarrow> graph \<Rightarrow> graph" where
  "add_nodes_from us g = foldl (\<lambda>h u. add_node u h) g us"

definition has_edge :: "graph \<Rightarrow> int \<Rightarrow> int \<Rightarrow> bool" where
  "has_edge g u v =
     ((u, v) \<in> set (g_edges g) \<or> (\<not> g_directed g \<and> (v, u) \<in> set (g_edges g)))"

definition add_edge :: "int \<Rightarrow> int \<Rightarrow> graph \<Rightarrow> graph" where
  "add_edge u v g =
     (let h = add_node v (add_node u g)
      in if has_edge h u v then h else h\<lparr> g_edges := g_edges h @ [(u, v)] \<rparr>)"

definition remove_edge :: "int \<Rightarrow> int \<Rightarrow> graph \<Rightarrow> error + graph" where
  "remove_edge u v g =
     (if has_edge g u v
      then Inr (g\<lparr> g_edges :=
                  filter (\<lambda>e. e \<noteq> (u, v) \<and> (g_directed g \<or> e \<noteq> (v, u))) (g_edges g) \<rparr>)
      else Inl NetworkXError)"

definition neighbors :: "graph \<Rightarrow> int \<Rightarrow> error + int list" where
  "neighbors g u =
     (if u \<notin> set (g_nodes g) then Inl NetworkXError
      else if g_directed g then Inr (map snd (filter (\<lambda>e. fst e = u) (g_edges g)))
      else Inr (concat (map (\<lambda>e. if fst e = u then [snd e]
                                  else if snd e = u then [fst e] else []) (g_edges g))))"

definition predecessors :: "graph \<Rightarrow> int \<Rightarrow> error + int list" where
  "predecessors g u =
     (if \<not> g_directed g then Inl AttributeError
      else if u \<notin> set (g_nodes g) then Inl NetworkXError
      else Inr (map fst (filter (\<lambda>e. snd e = u) (g_edges g))))"

section \<open>The network state\<close>

text \<open>
  The \<^verbatim>\<open>weight\<close> property: a float, or the marker \<^verbatim>\<open>'random'\<close>.
\<close>

datatype weight_param = WFloat real | WRandom

text \<open>
  The \<^verbatim>\<open>resistance_param\<close> property: a float, a string, a dictionary from archetype
  names to floats or strings, or a value of another type (an \<^verbatim>\<open>int\<close>, say), which
  \<^verbatim>\<open>initialize_resistance\<close> passes over.
\<close>

datatype resistance_entry = EFloat real | EStr string | EOther

datatype resistance_param =
  RFloat real | RStr string | RDict "(string \<times> resistance_entry) list" | ROther

text \<open>
  The properties dictionary and the graph of one \<^verbatim>\<open>SocialNetwork\<close> object. The node
  count \<^verbatim>\<open>n\<close> and the dimensionality are taken as naturals. \<open>graph\<close> is \<open>None\<close> until
  \<^verbatim>\<open>generate_edges\<close> or \<^verbatim>\<open>_read\<close> creates it. The keys \<^verbatim>\<open>rewire\<close> and
  \<^verbatim>\<open>type_dist\<close> have no default and may be missing (\<open>None\<close>); a dictionary is a list
  of its items in insertion order.
\<close>

record social_network =
  n_nodes :: nat
  directed :: bool
  symmetric :: bool
  dimensions :: nat
  topology :: string
  visibility :: string
  weight :: weight_param
  unfriend :: real
  unfriend_threshold :: real
  friend :: real
  update :: real
  graph :: "graph option"
  weights :: "real list list"
  normalized_weights :: "npfloat list list"
  attribute_space :: "real list list"
  correlations :: "real list list"
  masks :: "real list list list"
  types :: "string list"
  resistance :: "real list"
  saturation :: real
  rewire :: "real option"
  type_dist :: "(string \<times> real) list option"
  indexes_by_type :: "(string \<times> int list) list"
  resistance_param :: resistance_param

type_synonym world = "social_network \<times> rnd"

subsection \<open>Neighbours\<close>

definition get_neighbors :: "social_network \<Rightarrow> int \<Rightarrow> error + int list" where
  "get_neighbors s u =
     (case graph s of
        None \<Rightarrow> Inl AttributeError
      | Some g \<Rightarrow> if \<not> directed s then neighbors g u else predecessors g u)"

subsection \<open>Revealing and hiding one coordinate\<close>

definition reveal :: "int \<Rightarrow> int \<Rightarrow> int \<Rightarrow> social_network \<Rightarrow> social_network outcome" where
  "reveal u v k s =
     (case setitem3 (masks s) v u k 1 of
        Inl e \<Rightarrow> Raised e s
      | Inr m \<Rightarrow> Returned (s\<lparr> masks := m \<rparr>))"

definition hide :: "int \<Rightarrow> int \<Rightarrow> int \<Rightarrow> social_network \<Rightarrow> social_network outcome" where
  "hide u v k s =
     (case setitem3 (masks s) v u k 0 of
        Inl e \<Rightarrow> Raised e s
      | Inr m \<Rightarrow> Returned (s\<lparr> masks := m \<rparr>))"

subsection \<open>Reward\<close>

text \<open>
  \<^verbatim>\<open>scipy.spatial.distance.hamming\<close>, modelled from the library's documentation: the
  proportion of positions at which two vectors of equal length disagree; vectors of
  different lengths are rejected.
\<close>

definition hamming :: "real list \<Rightarrow> real list \<Rightarrow> error + real" where
  "hamming a b =
     (if length a \<noteq> length b then Inl ValueError
      else Inr (real (length (filter (\<lambda>p. fst p \<noteq> snd p) (zip a b))) / real (length a)))"

text \<open>
  The comprehension \<^verbatim>\<open>[ vec[i] for i in range(len(vec)) if vec2[i] != 0. ]\<close>: reading
  \<^verbatim>\<open>vec2[i]\<close> past the end of \<open>vec2\<close> raises.
\<close>

definition visible_part :: "real list \<Rightarrow> real list \<Rightarrow> error + real list" where
  "visible_part vec vec2 =
     (if length vec2 < length vec then Inl IndexError
      else Inr (map (\<lambda>i. vec ! i) (filter (\<lambda>i. vec2 ! i \<noteq> 0) [0 ..< length vec])))"

text \<open>The result is \<open>None\<close> where the Python function falls off its end.\<close>

definition get_reward_for_neighbor :: "social_network \<Rightarrow> int \<Rightarrow> int \<Rightarrow> error + real option" where
  "get_reward_for_neighbor s u v =
     bind_e (item (attribute_space s) u) (\<lambda>vec1.
     bind_e (item2 (masks s) u v) (\<lambda>vec2.
     bind_e (visible_part vec1 vec2) (\<lambda>distvec1.
       if distvec1 = [] then Inr (Some 0)
       else
         bind_e (visible_part vec2 vec2) (\<lambda>distvec2.
         bind_e (hamming distvec1 distvec2) (\<lambda>dist.
         bind_e (item (types s) u) (\<lambda>t.
           if t \<in> set [''R'', ''DA''] then Inr (Some (1 - dist))
           else bind_e (item (types s) u) (\<lambda>t.
           if t \<in> set [''E'', ''RWC''] then Inr (Some dist)
           else bind_e (item (types s) u) (\<lambda>t.
           if t \<in> set [''SC'', ''SR''] then Inr (Some (1 - \<bar>dist - 0.5\<bar> * 2))
           else Inr None))))))))"

subsection \<open>Assignments to the arrays of the network\<close>

text \<open>One statement each; an index out of range raises and leaves the state as it was.\<close>

definition set_weight :: "int \<Rightarrow> int \<Rightarrow> real \<Rightarrow> social_network \<Rightarrow> social_network outcome" where
  "set_weight i j x s =
     (case setitem2 (weights s) i j x of
        Inl e \<Rightarrow> Raised e s
      | Inr m \<Rightarrow> Returned (s\<lparr> weights := m \<rparr>))"

definition set_normalized ::
  "int \<Rightarrow> int \<Rightarrow> npfloat \<Rightarrow> social_network \<Rightarrow> social_network outcome" where
  "set_normalized i j x s =
     (case setitem2 (normalized_weights s) i j x of
        Inl e \<Rightarrow> Raised e s
      | Inr m \<Rightarrow> Returned (s\<lparr> normalized_weights := m \<rparr>))"

definition set_mask :: "int \<Rightarrow> int \<Rightarrow> int \<Rightarrow> real \<Rightarrow> social_network \<Rightarrow> social_network outcome" where
  "set_mask i j k x s =
     (case setitem3 (masks s) i j k x of
        Inl e \<Rightarrow> Raised e s
      | Inr m \<Rightarrow> Returned (s\<lparr> masks := m \<rparr>))"

text \<open>Statements in sequence: the first raise ends the method.\<close>

fun in_order :: "('a \<Rightarrow> 'a outcome) list \<Rightarrow> 'a \<Rightarrow> 'a outcome" where
  "in_order [] s = Returned s"
| "in_order (f # fs) s = and_then (f s) (in_order fs)"

text \<open>A statement that does not touch the random stream, run in a world with one.\<close>

definition no_draw :: "(social_network \<Rightarrow> social_network outcome) \<Rightarrow> world \<Rightarrow> world outcome" where
  "no_draw f w =
     (case f (fst w) of
        Returned s' \<Rightarrow> Returned (s', snd w)
      | Raised e s' \<Rightarrow> Raised e (s', snd w))"

subsection \<open>Normalized weight column\<close>

text \<open>\<^verbatim>\<open>total = self._properties['weights'].sum(axis=0)[u]\<close>\<close>

definition column_total :: "social_network \<Rightarrow> int \<Rightarrow> error + real" where
  "column_total s u = item (sum_axis0 (weights s)) u"

definition update_weight_column :: "int \<Rightarrow> social_network \<Rightarrow> social_network outcome" where
  "update_weight_column u s =
     and_then
       (for_each (map int [0 ..< n_nodes s]) (\<lambda>v. set_normalized v u (Finite 0)) s)
       (\<lambda>s1.
          case column_total s1 u of
            Inl e \<Rightarrow> Raised e s1
          | Inr tot \<Rightarrow>
              (case get_neighbors s1 u of
                 Inl e \<Rightarrow> Raised e s1
               | Inr nbrs \<Rightarrow>
                   and_then
                     (for_each nbrs
                        (\<lambda>v s2. case item2 (weights s2) v u of
                                   Inl e \<Rightarrow> Raised e s2
                                 | Inr w \<Rightarrow> set_normalized v u (np_div w tot) s2)
                        s1)
                     (set_normalized u u (np_div 1 tot))))"

subsection \<open>Connecting and disconnecting\<close>

definition graph_add_edge :: "int \<Rightarrow> int \<Rightarrow> social_network \<Rightarrow> social_network outcome" where
  "graph_add_edge u v s =
     (case graph s of
        None \<Rightarrow> Raised AttributeError s
      | Some g \<Rightarrow> Returned (s\<lparr> graph := Some (add_edge u v g) \<rparr>))"

definition graph_remove_edge :: "int \<Rightarrow> int \<Rightarrow> social_network \<Rightarrow> social_network outcome" where
  "graph_remove_edge u v s =
     (case graph s of
        None \<Rightarrow> Raised AttributeError s
      | Some g \<Rightarrow>
          (case remove_edge u v g of
             Inl e \<Rightarrow> Raised e s
           | Inr g' \<Rightarrow> Returned (s\<lparr> graph := Some g' \<rparr>)))"

text \<open>
  The raw weight of a new edge \<open>u \<rightarrow> v\<close>: a draw when the weight mode is
  \<^verbatim>\<open>'random'\<close> (the draw is taken before the matrix is indexed), the configured
  constant otherwise.
\<close>

definition assign_weight :: "int \<Rightarrow> int \<Rightarrow> world \<Rightarrow> world outcome" where
  "assign_weight u v w =
     (case weight (fst w) of
        WRandom \<Rightarrow> (case random (snd w) of (r, g') \<Rightarrow> no_draw (set_weight u v r) (fst w, g'))
      | WFloat x \<Rightarrow> no_draw (set_weight u v x) w)"

text \<open>\<^verbatim>\<open>masks[v][u][k] = attribute_space[u][k]\<close>: the right-hand side is read first.\<close>

definition copy_coordinate :: "int \<Rightarrow> int \<Rightarrow> int \<Rightarrow> social_network \<Rightarrow> social_network outcome" where
  "copy_coordinate v u k s =
     (case item2 (attribute_space s) u k of
        Inl e \<Rightarrow> Raised e s
      | Inr a \<Rightarrow> set_mask v u k a s)"

text \<open>
  The visibility step of \<^verbatim>\<open>connect\<close> for the view \<open>v\<close> has of \<open>u\<close>. In the
  \<^verbatim>\<open>'random'\<close> mode the loop bound \<^verbatim>\<open>self._graph.graph['k']\<close> is read from the graph's
  attribute dictionary, which nothing ever fills: the lookup raises.
\<close>

definition connect_masks :: "int \<Rightarrow> int \<Rightarrow> social_network \<Rightarrow> social_network outcome" where
  "connect_masks v u s =
     (if visibility s = ''visible''
      then for_each (map int [0 ..< dimensions s]) (copy_coordinate v u) s
      else if visibility s = ''random''
      then (case graph s of None \<Rightarrow> Raised AttributeError s | Some g \<Rightarrow> Raised KeyError s)
      else Returned s)"

text \<open>
  One direction of \<^verbatim>\<open>connect\<close>: the edge \<open>u \<rightarrow> v\<close>, its raw weight, and what \<open>v\<close>
  sees of \<open>u\<close>. A symmetric network does the same in the other direction.
\<close>

definition connect_one_way :: "int \<Rightarrow> int \<Rightarrow> world \<Rightarrow> world outcome" where
  "connect_one_way u v =
     in_order
       [ no_draw (graph_add_edge u v),
         assign_weight u v,
         no_draw (connect_masks v u) ]"

definition connect_mirror :: "int \<Rightarrow> int \<Rightarrow> world \<Rightarrow> world outcome" where
  "connect_mirror u v w = (if symmetric (fst w) then connect_one_way v u w else Returned w)"

definition connect :: "int \<Rightarrow> int \<Rightarrow> world \<Rightarrow> world outcome" where
  "connect u v w =
     (if u = v then Returned w
      else in_order
        [ connect_one_way u v,
          connect_mirror u v,
          no_draw (update_weight_column u),
          no_draw (update_weight_column v) ] w)"

text \<open>
  \<^verbatim>\<open>disconnect\<close> after its draw: the two \<^verbatim>\<open>try\<close> blocks swallow whatever is raised
  inside them, the four statements after them are unprotected.
\<close>

definition zero_masks :: "int \<Rightarrow> int \<Rightarrow> social_network \<Rightarrow> social_network outcome" where
  "zero_masks u v s =
     for_each (map int [0 ..< dimensions s])
       (\<lambda>k. in_order [ set_mask v u k 0, set_mask u v k 0 ]) s"

definition disconnect_edge :: "int \<Rightarrow> int \<Rightarrow> social_network \<Rightarrow> social_network outcome" where
  "disconnect_edge u v s =
     (let s1 = try_pass (in_order [ graph_remove_edge u v, zero_masks u v ] s);
          s2 = try_pass (if symmetric s1 then graph_remove_edge v u s1 else Returned s1)
      in in_order
           [ set_weight u v 0,
             set_weight v u 0,
             update_weight_column u,
             update_weight_column v ] s2)"

definition disconnect :: "int \<Rightarrow> int \<Rightarrow> world \<Rightarrow> world outcome" where
  "disconnect u v w =
     (case random (snd w) of
        (r, g') \<Rightarrow>
          if r < unfriend (fst w) then Returned (fst w, g')
          else no_draw (disconnect_edge u v) (fst w, g'))"

section \<open>Initialisation\<close>

subsection \<open>Edge weights\<close>





subsection \<open>Opinions and correlations\<close>

fun draw_row :: "nat \<Rightarrow> rnd \<Rightarrow> real list \<times> rnd" where
  "draw_row 0 g = ([], g)"
| "draw_row (Suc k) g =
     (case choice2 (- 1) 1 g of
        (x, g') \<Rightarrow> (case draw_row k g' of (xs, g'') \<Rightarrow> (x # xs, g'')))"

fun draw_matrix :: "nat \<Rightarrow> nat \<Rightarrow> rnd \<Rightarrow> real list list \<times> rnd" where
  "draw_matrix 0 k g = ([], g)"
| "draw_matrix (Suc m) k g =
     (case draw_row k g of
        (row, g') \<Rightarrow> (case draw_matrix m k g' of (rows, g'') \<Rightarrow> (row # rows, g'')))"

definition initialize_attribute_space :: "world \<Rightarrow> world outcome" where
  "initialize_attribute_space w =
     (case draw_matrix (n_nodes (fst w)) (dimensions (fst w)) (snd w) of
        (m, g') \<Rightarrow> Returned ((fst w)\<lparr> attribute_space := m \<rparr>, g'))"

definition identity :: "nat \<Rightarrow> real list list" where
  "identity k = map (\<lambda>i. map (\<lambda>j. if i = j then 1 else 0) [0 ..< k]) [0 ..< k]"

definition initialize_correlations :: "social_network \<Rightarrow> social_network outcome" where
  "initialize_correlations s = Returned (s\<lparr> correlations := identity (dimensions s) \<rparr>)"

subsection \<open>Masks\<close>

text \<open>\<^verbatim>\<open>masks[j][i][k] = rnd.choice( [ 0., attribute_space[i][k] ] )\<close>\<close>

definition random_coordinate :: "int \<Rightarrow> int \<Rightarrow> int \<Rightarrow> world \<Rightarrow> world outcome" where
  "random_coordinate j i k w =
     (case item2 (attribute_space (fst w)) i k of
        Inl e \<Rightarrow> Raised e w
      | Inr a \<Rightarrow>
          (case choice2 0 a (snd w) of
             (x, g') \<Rightarrow> no_draw (set_mask j i k x) (fst w, g')))"

definition init_neighbor_mask :: "int \<Rightarrow> int \<Rightarrow> world \<Rightarrow> world outcome" where
  "init_neighbor_mask i j w =
     (if visibility (fst w) = ''random''
      then for_each (map int [0 ..< dimensions (fst w)]) (random_coordinate j i) w
      else if visibility (fst w) = ''visible''
      then for_each (map int [0 ..< dimensions (fst w)])
             (\<lambda>k. no_draw (copy_coordinate j i k)) w
      else Returned w)"

definition init_node_masks :: "int \<Rightarrow> world \<Rightarrow> world outcome" where
  "init_node_masks i w =
     and_then
       (for_each (map int [0 ..< dimensions (fst w)]) (\<lambda>k. no_draw (copy_coordinate i i k)) w)
       (\<lambda>w1. case get_neighbors (fst w1) i of
                Inl e \<Rightarrow> Raised e w1
              | Inr nbrs \<Rightarrow> for_each nbrs (init_neighbor_mask i) w1)"

definition initialize_masks :: "world \<Rightarrow> world outcome" where
  "initialize_masks w =
     (let s = fst w;
          s0 = s\<lparr> masks := zeros3 (n_nodes s) (n_nodes s) (dimensions s) \<rparr>
      in for_each (map int [0 ..< n_nodes s0]) init_node_masks (s0, snd w))"

section \<open>One step\<close>

subsection \<open>Update phase\<close>

text \<open>
  \<^verbatim>\<open>get_local_average\<close> with \<^verbatim>\<open>weighted=False\<close>, the only way \<^verbatim>\<open>step\<close> calls it:
  the column sums of the mask rows of \<open>u\<close>, over the number of neighbours plus one.
\<close>

definition get_local_average :: "social_network \<Rightarrow> int \<Rightarrow> error + real list" where
  "get_local_average s u =
     bind_e (get_neighbors s u) (\<lambda>nbrs.
     bind_e (item (masks s) u) (\<lambda>m.
       Inr (map (\<lambda>x. x / real (length nbrs + 1)) (sum_axis0 m))))"

type_synonym changes = "(int \<times> int) list \<times> rnd"

text \<open>\<^verbatim>\<open>curr_state[k] * local_avg[k]\<close>\<close>

definition agreement :: "real list \<Rightarrow> real list \<Rightarrow> int \<Rightarrow> error + real" where
  "agreement curr_state local_avg k =
     bind_e (item curr_state k) (\<lambda>c. bind_e (item local_avg k) (\<lambda>a. Inr (c * a)))"

text \<open>
  The resistance gate and the draw against the update probability; a passed draw
  records the pair \<open>[i, k]\<close>.
\<close>

definition gate :: "social_network \<Rightarrow> int \<Rightarrow> int \<Rightarrow> real \<Rightarrow> real list \<Rightarrow> changes \<Rightarrow> changes outcome" where
  "gate s i k res local_avg acc =
     (case item local_avg k of
        Inl e \<Rightarrow> Raised e acc
      | Inr a \<Rightarrow>
          if \<bar>a\<bar> > res
          then (case random (snd acc) of
                  (r, g') \<Rightarrow>
                    if r < update s then Returned (fst acc @ [(i, k)], g')
                    else Returned (fst acc, g'))
          else Returned acc)"

definition second_family ::
  "social_network \<Rightarrow> int \<Rightarrow> int \<Rightarrow> real \<Rightarrow> real list \<Rightarrow> real list \<Rightarrow> changes \<Rightarrow> changes outcome" where
  "second_family s i k res curr_state local_avg acc =
     (case item (types s) i of
        Inl e \<Rightarrow> Raised e acc
      | Inr t \<Rightarrow>
          if t \<in> set [''DA'', ''RWC'', ''SR'']
          then (case agreement curr_state local_avg k of
                  Inl e \<Rightarrow> Raised e acc
                | Inr p \<Rightarrow>
                    if p < 0 then Returned acc
                    else gate s i k res local_avg acc)
          else Returned acc)"

text \<open>The body of the loop over \<open>k\<close>; \<^verbatim>\<open>continue\<close> in the first family skips the second test.\<close>

definition consider_coordinate ::
  "social_network \<Rightarrow> int \<Rightarrow> real \<Rightarrow> real list \<Rightarrow> real list \<Rightarrow> int \<Rightarrow> changes \<Rightarrow> changes outcome" where
  "consider_coordinate s i res curr_state local_avg k acc =
     (case item (types s) i of
        Inl e \<Rightarrow> Raised e acc
      | Inr t \<Rightarrow>
          if t \<in> set [''R'', ''E'', ''SC'']
          then (case agreement curr_state local_avg k of
                  Inl e \<Rightarrow> Raised e acc
                | Inr p \<Rightarrow>
                    if p > 0 then Returned acc
                    else and_then (gate s i k res local_avg acc)
                           (second_family s i k res curr_state local_avg))
          else second_family s i k res curr_state local_avg acc)"

definition consider_node :: "social_network \<Rightarrow> int \<Rightarrow> changes \<Rightarrow> changes outcome" where
  "consider_node s i acc =
     (case item (resistance s) i of
        Inl e \<Rightarrow> Raised e acc
      | Inr res \<Rightarrow>
          (case item (attribute_space s) i of
             Inl e \<Rightarrow> Raised e acc
           | Inr curr_state \<Rightarrow>
               (case get_local_average s i of
                  Inl e \<Rightarrow> Raised e acc
                | Inr local_avg \<Rightarrow>
                    for_each (map int [0 ..< length curr_state])
                      (consider_coordinate s i res curr_state local_avg) acc)))"

text \<open>\<^verbatim>\<open>attribute_space[node][dim] *= -1\<close>\<close>

definition flip :: "int \<times> int \<Rightarrow> real list list \<Rightarrow> real list list outcome" where
  "flip c a =
     (case item2 a (fst c) (snd c) of
        Inl e \<Rightarrow> Raised e a
      | Inr x \<Rightarrow>
          (case setitem2 a (fst c) (snd c) (x * (- 1)) of
             Inl e \<Rightarrow> Raised e a
           | Inr a' \<Rightarrow> Returned a'))"

text \<open>
  The sweep only collects the pairs to flip; the flips are applied afterwards, to
  \<^verbatim>\<open>attribute_space\<close> alone.
\<close>

definition update_attributes :: "world \<Rightarrow> world outcome" where
  "update_attributes w =
     (let s = fst w
      in case for_each (map int [0 ..< n_nodes s]) (consider_node s) ([], snd w) of
           Raised e acc \<Rightarrow> Raised e (s, snd acc)
         | Returned acc \<Rightarrow>
             (case for_each (fst acc) flip (attribute_space s) of
                Raised e a \<Rightarrow> Raised e (s\<lparr> attribute_space := a \<rparr>, snd acc)
              | Returned a \<Rightarrow> Returned (s\<lparr> attribute_space := a \<rparr>, snd acc)))"

subsection \<open>Rewire-out phase\<close>

text \<open>Comparing \<^verbatim>\<open>None\<close> with a float raises.\<close>

definition act_on_neighbor :: "int \<Rightarrow> int \<Rightarrow> world \<Rightarrow> world outcome" where
  "act_on_neighbor i nbr w =
     (case get_reward_for_neighbor (fst w) i nbr of
        Inl e \<Rightarrow> Raised e w
      | Inr None \<Rightarrow> Raised TypeError w
      | Inr (Some r) \<Rightarrow>
          if r < unfriend_threshold (fst w)
          then (case random (snd w) of
                  (p, g') \<Rightarrow>
                    if p < unfriend (fst w) then disconnect i nbr (fst w, g')
                    else Returned (fst w, g'))
          else Returned w)"

definition act_on_node :: "int \<Rightarrow> world \<Rightarrow> world outcome" where
  "act_on_node i w =
     (case get_neighbors (fst w) i of
        Inl e \<Rightarrow> Raised e w
      | Inr nbrs \<Rightarrow> for_each nbrs (act_on_neighbor i) w)"

definition act :: "world \<Rightarrow> world outcome" where
  "act w = for_each (map int [0 ..< n_nodes (fst w)]) act_on_node w"

section \<open>Well-formed states and example networks\<close>

text \<open>The arrays have the shapes \<^verbatim>\<open>np.zeros\<close> gave them: \<open>n \<times> n\<close>, \<open>n \<times> k\<close> and \<open>n \<times> n \<times> k\<close>.\<close>

definition matrix_shape :: "nat \<Rightarrow> nat \<Rightarrow> 'a list list \<Rightarrow> bool" where
  "matrix_shape r c m = (length m = r \<and> (\<forall>row \<in> set m. length row = c))"

definition well_shaped :: "social_network \<Rightarrow> bool" where
  "well_shaped s =
     (matrix_shape (n_nodes s) (n_nodes s) (weights s) \<and>
      matrix_shape (n_nodes s) (n_nodes s) (normalized_weights s) \<and>
      matrix_shape (n_nodes s) (dimensions s) (attribute_space s) \<and>
      length (masks s) = n_nodes s \<and>
      (\<forall>m \<in> set (masks s). matrix_shape (n_nodes s) (dimensions s) m))"

text \<open>A node index in \<open>0 .. n-1\<close>.\<close>

definition is_node :: "social_network \<Rightarrow> int \<Rightarrow> bool" where
  "is_node s u = (0 \<le> u \<and> u < int (n_nodes s))"

text \<open>
  Two connected nodes with one opinion coordinate each, everything visible, all
  properties at their defaults (\<^verbatim>\<open>unfriend\<close> is 1.0).
\<close>

definition two_nodes :: social_network where
  "two_nodes =
     \<lparr> n_nodes = 2, directed = False, symmetric = False, dimensions = 1,
       topology = ''cycle'', visibility = ''visible'', weight = WFloat 1, unfriend = 1,
       unfriend_threshold = 1, friend = 0, update = 1,
       graph = Some \<lparr> g_directed = False, g_nodes = [0, 1], g_edges = [(0, 1)] \<rparr>,
       weights = [[1, 1], [1, 1]],
       normalized_weights = [[Finite (1 / 2), Finite (1 / 2)], [Finite (1 / 2), Finite (1 / 2)]],
       attribute_space = [[- 1], [1]], correlations = [[1]],
       masks = [[[- 1], [1]], [[- 1], [1]]],
       types = [''R'', ''R''], resistance = [0, 0],
       saturation = 1 / 10, rewire = None, type_dist = Some [(''R'', 1)],
       indexes_by_type = [(''R'', [0, 1])], resistance_param = RFloat 0 \<rparr>"

text \<open>One node without edges, in a network whose \<^verbatim>\<open>unfriend\<close> property is 0.\<close>

definition lone_node :: social_network where
  "lone_node =
     \<lparr> n_nodes = 1, directed = False, symmetric = False, dimensions = 1,
       topology = [], visibility = ''visible'', weight = WFloat 1, unfriend = 0,
       unfriend_threshold = 1, friend = 0, update = 1,
       graph = Some \<lparr> g_directed = False, g_nodes = [0], g_edges = [] \<rparr>,
       weights = [[1]], normalized_weights = [[Finite 1]],
       attribute_space = [[1]], correlations = [[1]],
       masks = [[[1]]], types = [''R''], resistance = [0],
       saturation = 1 / 10, rewire = None, type_dist = Some [(''R'', 1)],
       indexes_by_type = [(''R'', [0])], resistance_param = RFloat 0 \<rparr>"

text \<open>A stream whose every draw is one half.\<close>

definition halves :: rnd where
  "halves = (\<lambda>i. 1 / 2)"

text \<open>An index that no axis of length \<open>len\<close> accepts, not even counting from the end.\<close>

definition out_of_range :: "nat \<Rightarrow> int \<Rightarrow> bool" where
  "out_of_range len i = (i < - int len \<or> int len \<le> i)"

text \<open>Two states that differ in the graph at most.\<close>

definition graph_only :: "social_network \<Rightarrow> social_network \<Rightarrow> bool" where
  "graph_only s s' = (s' = s\<lparr> graph := graph s' \<rparr>)"

text \<open>The opinion matrix and the mask tensor have the shapes their initialisers gave them.\<close>

definition masks_shaped :: "social_network \<Rightarrow> bool" where
  "masks_shaped s =
     (matrix_shape (n_nodes s) (dimensions s) (attribute_space s) \<and>
      length (masks s) = n_nodes s \<and>
      (\<forall>m \<in> set (masks s). matrix_shape (n_nodes s) (dimensions s) m))"

text \<open>Every node sees its own opinions as they are: \<open>M[i][i][k] = attribute[i][k]\<close> for every node \<open>i\<close> and coordinate \<open>k\<close>.\<close>

definition self_perception :: "social_network \<Rightarrow> bool" where
  "self_perception s =
     (\<forall>i \<in> set [0 ..< n_nodes s]. \<forall>k \<in> set [0 ..< dimensions s].
        masks s ! i ! i ! k = attribute_space s ! i ! k)"

text \<open>A statement keeps a property of the state, whether it returns or raises.\<close>

definition preserves :: "('a \<Rightarrow> bool) \<Rightarrow> ('a \<Rightarrow> 'a outcome) \<Rightarrow> bool" where
  "preserves P f = (\<forall>s. P s \<longrightarrow> P (final (f s)))"

text \<open>The shapes together with self-perception: the property carried through every statement.\<close>

definition sp_inv :: "social_network \<Rightarrow> bool" where
  "sp_inv s = (masks_shaped s \<and> self_perception s)"

text \<open>The same property of a state that comes with a random stream.\<close>

abbreviation sp_world :: "world \<Rightarrow> bool" where
  "sp_world \<equiv> (\<lambda>w. sp_inv (fst w))"

text \<open>The graph as \<^verbatim>\<open>generate_edges\<close> leaves it when the generator stays within the \<open>n\<close> nodes: of the kind the \<^verbatim>\<open>directed\<close> property asks for, with the nodes \<open>0 .. n-1\<close> in order and every edge between two of them.\<close>

definition graph_ok :: "social_network \<Rightarrow> bool" where
  "graph_ok s =
     (case graph s of
        None \<Rightarrow> False
      | Some g \<Rightarrow>
          g_directed g = directed s \<and> g_nodes g = map int [0 ..< n_nodes s] \<and>
          (\<forall>e \<in> set (g_edges g). is_node s (fst e) \<and> is_node s (snd e)))"

text \<open>No edge from a node to itself.\<close>

definition loop_free :: "social_network \<Rightarrow> bool" where
  "loop_free s = (case graph s of None \<Rightarrow> True | Some g \<Rightarrow> \<forall>e \<in> set (g_edges g). fst e \<noteq> snd e)"

text \<open>A state that differs from \<open>s0\<close> in the masks only, well shaped, whose self-masks are right at the entries in \<open>S\<close>.\<close>

definition perceives :: "social_network \<Rightarrow> (nat \<times> nat) set \<Rightarrow> social_network \<Rightarrow> bool" where
  "perceives s0 S s =
     ((\<exists>t. s = s0\<lparr> masks := t \<rparr>) \<and> masks_shaped s \<and>
      (\<forall>(p, q) \<in> S. masks s ! p ! p ! q = attribute_space s ! p ! q))"

text \<open>Three nodes, all connected, one coordinate, everything visible; node 0 disagrees with the other two. All nodes have archetype R and resistance 0.\<close>

definition three_nodes :: social_network where
  "three_nodes =
     \<lparr> n_nodes = 3, directed = False, symmetric = False, dimensions = 1,
       topology = ''complete'', visibility = ''visible'', weight = WFloat 1, unfriend = 1,
       unfriend_threshold = 1, friend = 0, update = 1,
       graph = Some \<lparr> g_directed = False, g_nodes = [0, 1, 2],
                       g_edges = [(0, 1), (0, 2), (1, 2)] \<rparr>,
       weights = [[1, 1, 1], [1, 1, 1], [1, 1, 1]],
       normalized_weights =
         [[Finite (1 / 3), Finite (1 / 3), Finite (1 / 3)],
          [Finite (1 / 3), Finite (1 / 3), Finite (1 / 3)],
          [Finite (1 / 3), Finite (1 / 3), Finite (1 / 3)]],
       attribute_space = [[1], [- 1], [- 1]], correlations = [[1]],
       masks = [[[1], [- 1], [- 1]], [[1], [- 1], [- 1]], [[1], [- 1], [- 1]]],
       types = [''R'', ''R'', ''R''], resistance = [0, 0, 0],
       saturation = 1 / 10, rewire = None, type_dist = Some [(''R'', 1)],
       indexes_by_type = [(''R'', [0, 1, 2])], resistance_param = RFloat 0 \<rparr>"




text \<open>There is an edge from \<open>a\<close> to \<open>b\<close>, so that \<open>a\<close> is among \<^verbatim>\<open>get_neighbors(b)\<close>.\<close>

definition influences :: "social_network \<Rightarrow> nat \<Rightarrow> nat \<Rightarrow> bool" where
  "influences s a b = (case graph s of None \<Rightarrow> False | Some g \<Rightarrow> has_edge g (int a) (int b))"


text \<open>A statement started in a state with \<open>P\<close> returns, in a state with \<open>Q\<close>.\<close>

definition returns :: "('a \<Rightarrow> bool) \<Rightarrow> ('a \<Rightarrow> 'a outcome) \<Rightarrow> ('a \<Rightarrow> bool) \<Rightarrow> bool" where
  "returns P f Q = (\<forall>s. P s \<longrightarrow> (\<exists>s'. f s = Returned s' \<and> Q s'))"

text \<open>A statement started in a state with \<open>P\<close> ends in a state with \<open>Q\<close>, whether it returns or raises.\<close>

definition hoare :: "('a \<Rightarrow> bool) \<Rightarrow> ('a \<Rightarrow> 'a outcome) \<Rightarrow> ('a \<Rightarrow> bool) \<Rightarrow> bool" where
  "hoare P f Q = (\<forall>s. P s \<longrightarrow> Q (final (f s)))"



section \<open>Verified properties\<close>

subsection \<open>Array access\<close>

lemmas array_defs =
  item_def setitem_def item2_def setitem2_def item3_def setitem3_def bind_e_def py_index_def

lemma bind_e_Inr: "bind_e (Inr x) f = f x"
  by (simp add: bind_e_def)

lemma bind_e_Inl: "bind_e (Inl e) f = Inl e"
  by (simp add: bind_e_def)

lemma item_node: "0 \<le> i \<Longrightarrow> i < int (length xs) \<Longrightarrow> item xs i = Inr (xs ! nat i)"
  by (simp add: item_def py_index_def bind_e_def)

lemma random_halves: "random halves = (1 / 2, halves)"
  by (simp add: random_def halves_def)

subsection \<open>Reward\<close>

lemma hamming_bounds:
  assumes "a \<noteq> []" "length a = length b"
  shows "\<exists>d. hamming a b = Inr d \<and> 0 \<le> d \<and> d \<le> 1"
proof -
  have "length (filter (\<lambda>p. fst p \<noteq> snd p) (zip a b)) \<le> length (zip a b)"
    by (rule length_filter_le)
  also have "\<dots> = length a" using assms by simp
  finally have "real (length (filter (\<lambda>p. fst p \<noteq> snd p) (zip a b))) \<le> real (length a)"
    by simp
  moreover have "0 < real (length a)" using assms(1) by simp
  ultimately show ?thesis using assms
    by (simp add: hamming_def divide_le_eq_1)
qed

lemma visible_part_same_length:
  "length vec1 = length vec2 \<Longrightarrow>
   \<exists>d1 d2. visible_part vec1 vec2 = Inr d1 \<and> visible_part vec2 vec2 = Inr d2 \<and>
      length d1 = length d2 \<and> ((\<forall>m \<in> set vec2. m = 0) \<longrightarrow> d1 = [])"
  by (auto simp: visible_part_def filter_empty_conv)

lemma reward_dispatch:
  assumes t: "item (types s) u = Inr t"
    and six: "t \<in> set [''R'', ''E'', ''SC'', ''DA'', ''RWC'', ''SR'']"
    and d: "0 \<le> (dd::real)" "dd \<le> 1"
  shows "\<exists>x. bind_e (item (types s) u) (\<lambda>t.
           if t \<in> set [''R'', ''DA''] then Inr (Some (1 - dd))
           else bind_e (item (types s) u) (\<lambda>t.
           if t \<in> set [''E'', ''RWC''] then Inr (Some dd)
           else bind_e (item (types s) u) (\<lambda>t.
           if t \<in> set [''SC'', ''SR''] then Inr (Some (1 - \<bar>dd - 0.5\<bar> * 2))
           else Inr None))) = Inr (Some x) \<and> 0 \<le> x \<and> x \<le> 1"
proof -
  have ab: "\<bar>dd - 0.5\<bar> * 2 \<le> 1" "0 \<le> \<bar>dd - 0.5\<bar> * 2"
    using d by (simp_all add: abs_if)
  have "t = ''R'' \<or> t = ''E'' \<or> t = ''SC'' \<or> t = ''DA'' \<or> t = ''RWC'' \<or> t = ''SR''"
    using six by simp
  then show ?thesis
    using t d ab by (elim disjE) (simp_all add: bind_e_def)
qed

text \<open>
  C8. For nodes \<open>u\<close> and \<open>v\<close> of a well-shaped network in which \<open>u\<close> has one of the six
  archetypes, \<^verbatim>\<open>get_reward_for_neighbor(u, v)\<close> returns a number between 0 and 1, and it
  returns 0 when every coordinate of \<open>M[u][v]\<close> is 0.
\<close>

theorem reward_range:
  assumes shape: "well_shaped s"
    and u: "is_node s u" and v: "is_node s v"
    and t: "item (types s) u = Inr t"
    and six: "t \<in> set [''R'', ''E'', ''SC'', ''DA'', ''RWC'', ''SR'']"
  shows "\<exists>x. get_reward_for_neighbor s u v = Inr (Some x) \<and> 0 \<le> x \<and> x \<le> 1 \<and>
           ((\<forall>k \<in> set [0 ..< dimensions s]. item3 (masks s) u v (int k) = Inr 0) \<longrightarrow> x = 0)"
proof -
  let ?vec1 = "attribute_space s ! nat u"
  let ?vec2 = "masks s ! nat u ! nat v"
  let ?hidden = "\<forall>k \<in> set [0 ..< dimensions s]. item3 (masks s) u v (int k) = Inr 0"
  have nu: "nat u < n_nodes s" and nv: "nat v < n_nodes s"
    using u v by (auto simp: is_node_def)
  have l1: "length ?vec1 = dimensions s"
    using shape nu by (simp add: well_shaped_def matrix_shape_def)
  have mu: "matrix_shape (n_nodes s) (dimensions s) (masks s ! nat u)"
    using shape nu by (simp add: well_shaped_def)
  have l2: "length ?vec2 = dimensions s"
    using mu nv by (simp add: matrix_shape_def)
  have i1: "item (attribute_space s) u = Inr ?vec1"
    using shape u by (simp add: item_node well_shaped_def matrix_shape_def is_node_def)
  have i2: "item2 (masks s) u v = Inr ?vec2"
    using shape u v mu
    by (simp add: item2_def item_node well_shaped_def matrix_shape_def is_node_def bind_e_def)
  obtain d1 d2 where d: "visible_part ?vec1 ?vec2 = Inr d1" "visible_part ?vec2 ?vec2 = Inr d2"
    "length d1 = length d2" "(\<forall>m \<in> set ?vec2. m = 0) \<longrightarrow> d1 = []"
    using visible_part_same_length[of ?vec1 ?vec2] l1 l2 by auto
  have zero: "d1 = []" if a: ?hidden
  proof -
    have "\<forall>m \<in> set ?vec2. m = 0"
    proof
      fix m assume "m \<in> set ?vec2"
      then obtain k where k: "k < dimensions s" "m = ?vec2 ! k"
        using l2 by (auto simp: in_set_conv_nth)
      have "item3 (masks s) u v (int k) = Inr (?vec2 ! k)"
        using shape u v mu k l2
        by (simp add: item3_def item2_def item_node well_shaped_def matrix_shape_def
            is_node_def bind_e_def)
      with a k show "m = 0" by simp
    qed
    with d(4) show "d1 = []" by simp
  qed
  show ?thesis
  proof (cases "d1 = []")
    case True
    then have "get_reward_for_neighbor s u v = Inr (Some 0)"
      using i1 i2 d by (simp add: get_reward_for_neighbor_def bind_e_Inr)
    then show ?thesis by simp
  next
    case False
    then obtain dd where h: "hamming d1 d2 = Inr dd" "0 \<le> dd" "dd \<le> 1"
      using hamming_bounds[of d1 d2] d(3) by auto
    have nz: "\<not> ?hidden"
      using zero False by blast
    obtain x where x: "bind_e (item (types s) u) (\<lambda>t.
           if t \<in> set [''R'', ''DA''] then Inr (Some (1 - dd))
           else bind_e (item (types s) u) (\<lambda>t.
           if t \<in> set [''E'', ''RWC''] then Inr (Some dd)
           else bind_e (item (types s) u) (\<lambda>t.
           if t \<in> set [''SC'', ''SR''] then Inr (Some (1 - \<bar>dd - 0.5\<bar> * 2))
           else Inr None))) = Inr (Some x)" "0 \<le> x" "x \<le> 1"
      using reward_dispatch[OF t six h(2,3)] by blast
    have "get_reward_for_neighbor s u v = Inr (Some x)"
      unfolding get_reward_for_neighbor_def i1 i2 bind_e_Inr d(1,2) h(1)
      using False x(1) by simp
    then show ?thesis using x(2,3) nz by blast
  qed
qed

theorem reward_range_witness:
  "well_shaped two_nodes \<and> is_node two_nodes 0 \<and> is_node two_nodes 1 \<and>
   (\<exists>x. get_reward_for_neighbor two_nodes 0 1 = Inr (Some x) \<and> 0 \<le> x \<and> x \<le> 1 \<and>
      ((\<forall>k \<in> set [0 ..< dimensions two_nodes].
           item3 (masks two_nodes) 0 1 (int k) = Inr 0) \<longrightarrow> x = 0))"
proof -
  have a: "well_shaped two_nodes"
    by (simp add: two_nodes_def well_shaped_def matrix_shape_def)
  have b: "is_node two_nodes 0" "is_node two_nodes 1"
    by (simp_all add: two_nodes_def is_node_def)
  have c: "item (types two_nodes) 0 = Inr ''R''"
    by (simp add: two_nodes_def item_def py_index_def bind_e_def)
  have d: "''R'' \<in> set [''R'', ''E'', ''SC'', ''DA'', ''RWC'', ''SR'']"
    by simp
  show ?thesis using a b reward_range[OF a b c d] by blast
qed

subsection \<open>Reveal\<close>

text \<open>
  C4. \<^verbatim>\<open>reveal(u, v, k)\<close> stores the constant 1 in \<open>M[v][u][k]\<close>: for a node whose true
  coordinate is -1 the revealed value is not the true one.
\<close>

theorem reveal_stores_one:
  "item3 (masks (final (reveal 0 1 0 two_nodes))) 1 0 0 = Inr 1 \<and>
   item2 (attribute_space two_nodes) 0 0 = Inr (- 1)"
  by (simp add: two_nodes_def reveal_def array_defs)

subsection \<open>The gate of disconnect\<close>

text \<open>
  C2. With the default \<^verbatim>\<open>unfriend\<close> of 1.0 a call of \<^verbatim>\<open>disconnect\<close> on an existing edge
  returns at its gate and leaves the network as it was.
\<close>

theorem disconnect_default_keeps_edge:
  "disconnect 0 1 (two_nodes, halves) = Returned (two_nodes, halves)"
  by (simp add: disconnect_def random_halves) (simp add: two_nodes_def)

subsection \<open>The divisor of the normalization\<close>

text \<open>
  C7. \<^verbatim>\<open>disconnect(0, 0)\<close> on a node without edges clears the self-weight: the divisor
  of \<^verbatim>\<open>update_weight_column(0)\<close> is 0 and the normalized self-weight is not finite.
\<close>

theorem disconnect_self_zero_total:
  "column_total (fst (final (disconnect 0 0 (lone_node, halves)))) 0 = Inr 0 \<and>
   normalized_weights (fst (final (disconnect 0 0 (lone_node, halves)))) = [[NotFinite]]"
  by (simp add: lone_node_def disconnect_def random_halves disconnect_edge_def try_pass_def
      graph_remove_edge_def remove_edge_def has_edge_def zero_masks_def no_draw_def
      set_weight_def update_weight_column_def set_normalized_def column_total_def
      sum_axis0_def ncols_def get_neighbors_def neighbors_def np_div_def array_defs)

subsection \<open>Frame of the update phase\<close>

text \<open>
  C10. \<^verbatim>\<open>update_attributes\<close> changes \<^verbatim>\<open>attribute_space\<close> and nothing else: the graph,
  both weight matrices, the masks, the resistance vector and the archetypes are those of
  the state it started from, whether it returns or raises.
\<close>

theorem update_attributes_frame:
  "graph (fst (final (update_attributes (s, g)))) = graph s \<and>
   weights (fst (final (update_attributes (s, g)))) = weights s \<and>
   normalized_weights (fst (final (update_attributes (s, g)))) = normalized_weights s \<and>
   masks (fst (final (update_attributes (s, g)))) = masks s \<and>
   resistance (fst (final (update_attributes (s, g)))) = resistance s \<and>
   types (fst (final (update_attributes (s, g)))) = types s \<and>
   fst (final (update_attributes (s, g))) =
     s\<lparr> attribute_space := attribute_space (fst (final (update_attributes (s, g)))) \<rparr>"
  by (simp add: update_attributes_def Let_def split: outcome.splits)

subsection \<open>Indices out of range\<close>

lemma py_index_out_of_range: "out_of_range len i \<Longrightarrow> py_index len i = Inl IndexError"
  by (auto simp: out_of_range_def py_index_def)

lemma py_index_less: "py_index len i = Inr j \<Longrightarrow> j < len"
  by (auto simp: py_index_def split: if_splits)

lemma item_out_of_range: "out_of_range (length xs) i \<Longrightarrow> item xs i = Inl IndexError"
  by (simp add: item_def py_index_out_of_range bind_e_Inl)

lemma item_in_set: "item xs i = Inr x \<Longrightarrow> x \<in> set xs"
  by (auto simp: item_def bind_e_def dest: py_index_less split: sum.splits)

lemma setitem_out_of_range: "out_of_range (length xs) i \<Longrightarrow> setitem xs i x = Inl IndexError"
  by (simp add: setitem_def py_index_out_of_range bind_e_Inl)

lemma setitem2_out_of_range:
  assumes "matrix_shape r c m" "out_of_range r i \<or> out_of_range c j"
  shows "setitem2 m i j x = Inl IndexError"
proof (cases "item m i")
  case (Inl e)
  then have "e = IndexError"
    by (auto simp: item_def bind_e_def py_index_def split: sum.splits if_splits)
  with Inl show ?thesis by (simp add: setitem2_def bind_e_Inl)
next
  case (Inr row)
  then have "row \<in> set m" by (rule item_in_set)
  then have len: "length row = c" using assms(1) by (simp add: matrix_shape_def)
  have "\<not> out_of_range r i"
    using Inr assms(1) item_out_of_range[of m i] by (auto simp: matrix_shape_def)
  then have "out_of_range (length row) j" using assms(2) len by simp
  then show ?thesis using Inr
    by (simp add: setitem2_def bind_e_Inr bind_e_Inl setitem_out_of_range)
qed

lemma setitem3_out_of_range:
  assumes "length t = n" "\<forall>m \<in> set t. matrix_shape n c m"
    "out_of_range n i \<or> out_of_range n j"
  shows "setitem3 t i j k x = Inl IndexError"
proof (cases "item t i")
  case (Inl e)
  then have "e = IndexError"
    by (auto simp: item_def bind_e_def py_index_def split: sum.splits if_splits)
  with Inl show ?thesis by (simp add: setitem3_def bind_e_Inl)
next
  case (Inr m)
  then have "m \<in> set t" by (rule item_in_set)
  then have sh: "matrix_shape n c m" using assms(2) by simp
  have "\<not> out_of_range n i"
    using Inr assms(1) item_out_of_range[of t i] by auto
  then have "out_of_range n j" using assms(3) by simp
  then have "setitem2 m j k x = Inl IndexError"
    using setitem2_out_of_range[OF sh] by simp
  then show ?thesis using Inr
    by (simp add: setitem3_def bind_e_Inr bind_e_Inl)
qed

lemma set_mask_out_of_range:
  assumes "well_shaped s" "out_of_range (n_nodes s) i \<or> out_of_range (n_nodes s) j"
  shows "set_mask i j k x s = Raised IndexError s"
  using assms setitem3_out_of_range[of "masks s" "n_nodes s" "dimensions s" i j k x]
  by (simp add: set_mask_def well_shaped_def)

lemma set_weight_out_of_range:
  assumes "matrix_shape (n_nodes s) (n_nodes s) (weights s)"
    "out_of_range (n_nodes s) i \<or> out_of_range (n_nodes s) j"
  shows "set_weight i j x s = Raised IndexError s"
  using assms setitem2_out_of_range[of "n_nodes s" "n_nodes s" "weights s" i j x]
  by (simp add: set_weight_def)

lemma zero_masks_out_of_range:
  assumes "well_shaped s" "out_of_range (n_nodes s) u \<or> out_of_range (n_nodes s) v"
  shows "final (zero_masks u v s) = s"
proof (cases "dimensions s")
  case 0
  then show ?thesis by (simp add: zero_masks_def)
next
  case (Suc k)
  have "set_mask v u 0 0 s = Raised IndexError s"
    using assms set_mask_out_of_range[of s v u] by blast
  then show ?thesis using Suc
    by (simp add: zero_masks_def upt_conv_Cons del: upt_Suc)
qed

lemma graph_only_refl: "graph_only s s"
  by (simp add: graph_only_def)

lemma graph_remove_edge_graph_only: "graph_only s (final (graph_remove_edge u v s))"
  by (simp add: graph_remove_edge_def graph_only_def split: option.splits sum.splits)

lemma graph_only_fields:
  "graph_only s s' \<Longrightarrow> weights s' = weights s \<and> normalized_weights s' = normalized_weights s \<and>
     masks s' = masks s \<and> n_nodes s' = n_nodes s \<and> symmetric s' = symmetric s \<and>
     dimensions s' = dimensions s \<and> attribute_space s' = attribute_space s"
  by (cases s', cases s) (simp add: graph_only_def)

lemma graph_only_trans: "graph_only a b \<Longrightarrow> graph_only b c \<Longrightarrow> graph_only a c"
  by (cases a, cases b, cases c) (simp add: graph_only_def)

lemma graph_only_well_shaped: "graph_only s s' \<Longrightarrow> well_shaped s \<Longrightarrow> well_shaped s'"
  using graph_only_fields[of s s'] by (simp add: well_shaped_def)

lemma disconnect_edge_out_of_range:
  assumes shape: "well_shaped s"
    and out: "out_of_range (n_nodes s) u \<or> out_of_range (n_nodes s) v"
  shows "\<exists>s'. disconnect_edge u v s = Raised IndexError s' \<and> graph_only s s'"
proof -
  define s1 where "s1 = try_pass (in_order [graph_remove_edge u v, zero_masks u v] s)"
  define s2 where "s2 = try_pass (if symmetric s1 then graph_remove_edge v u s1 else Returned s1)"
  have g1: "graph_only s s1"
  proof (cases "graph_remove_edge u v s")
    case (Returned a)
    then have ga: "graph_only s a"
      using graph_remove_edge_graph_only[of s u v] by simp
    then have "final (zero_masks u v a) = a"
      using zero_masks_out_of_range[of a u v] shape out graph_only_well_shaped[OF ga]
        graph_only_fields[OF ga] by simp
    then show ?thesis using Returned ga
      by (simp add: s1_def try_pass_def) (cases "zero_masks u v a"; simp)
  next
    case (Raised e a)
    then show ?thesis
      using graph_remove_edge_graph_only[of s u v] by (simp add: s1_def try_pass_def)
  qed
  have g12: "graph_only s1 s2"
    using graph_remove_edge_graph_only[of s1 v u]
    by (simp add: s2_def try_pass_def graph_only_refl)
  have g2: "graph_only s s2" using g1 g12 by (rule graph_only_trans)
  have "set_weight u v 0 s2 = Raised IndexError s2"
    using set_weight_out_of_range[of s2 u v 0] graph_only_well_shaped[OF g2 shape]
      graph_only_fields[OF g2] out by (simp add: well_shaped_def)
  moreover have "disconnect_edge u v s =
      in_order [set_weight u v 0, set_weight v u 0, update_weight_column u,
                update_weight_column v] s2"
    by (simp only: disconnect_edge_def Let_def s1_def s2_def)
  ultimately have "disconnect_edge u v s = Raised IndexError s2"
    by simp
  with g2 show ?thesis by blast
qed

lemma connect_out_of_range:
  assumes shape: "well_shaped s"
    and out: "out_of_range (n_nodes s) u \<or> out_of_range (n_nodes s) v"
    and ne: "u \<noteq> v" and gr: "graph s = Some gr"
  shows "\<exists>g'. connect u v (s, g) = Raised IndexError (s\<lparr> graph := Some (add_edge u v gr) \<rparr>, g')"
proof -
  let ?s1 = "s\<lparr> graph := Some (add_edge u v gr) \<rparr>"
  have a: "no_draw (graph_add_edge u v) (s, g) = Returned (?s1, g)"
    using gr by (simp add: no_draw_def graph_add_edge_def)
  have sw: "set_weight u v x ?s1 = Raised IndexError ?s1" for x
    using set_weight_out_of_range[of ?s1 u v x] shape out by (simp add: well_shaped_def)
  have "\<exists>g'. assign_weight u v (?s1, g) = Raised IndexError (?s1, g')"
    by (cases "weight s") (simp_all add: assign_weight_def no_draw_def sw random_def)
  then show ?thesis using ne a by (auto simp: connect_def connect_one_way_def)
qed

text \<open>
  C6 (as amended). In a well-shaped network, for \<open>u\<close> or \<open>v\<close> outside \<open>-n .. n-1\<close>:
  \<^verbatim>\<open>reveal\<close> and \<^verbatim>\<open>hide\<close> raise an index error and leave the state as it was;
  \<^verbatim>\<open>connect\<close> with \<open>u \<noteq> v\<close> raises an index error after it has added the edge to the
  graph, the arrays unchanged; \<^verbatim>\<open>disconnect\<close> returns with nothing changed when its
  draw is below \<^verbatim>\<open>unfriend\<close> and otherwise raises an index error with the weights, the
  normalized weights and the masks unchanged.
\<close>

theorem out_of_range_operations:
  assumes shape: "well_shaped s"
    and out: "out_of_range (n_nodes s) u \<or> out_of_range (n_nodes s) v"
  shows "reveal u v k s = Raised IndexError s \<and>
         hide u v k s = Raised IndexError s \<and>
         (u \<noteq> v \<and> graph s = Some gr \<longrightarrow>
            (\<exists>g'. connect u v (s, g) =
                     Raised IndexError (s\<lparr> graph := Some (add_edge u v gr) \<rparr>, g'))) \<and>
         (g 0 < unfriend s \<longrightarrow> disconnect u v (s, g) = Returned (s, snd (random g))) \<and>
         (\<not> g 0 < unfriend s \<longrightarrow>
            (\<exists>s'. disconnect u v (s, g) = Raised IndexError (s', snd (random g)) \<and>
                   weights s' = weights s \<and> normalized_weights s' = normalized_weights s \<and>
                   masks s' = masks s))"
proof -
  have m: "setitem3 (masks s) v u k x = Inl IndexError" for x
    using setitem3_out_of_range[of "masks s" "n_nodes s" "dimensions s" v u k x] shape out
    by (auto simp: well_shaped_def)
  have r: "reveal u v k s = Raised IndexError s" "hide u v k s = Raised IndexError s"
    by (simp_all add: reveal_def hide_def m)
  have c: "u \<noteq> v \<and> graph s = Some gr \<longrightarrow>
            (\<exists>g'. connect u v (s, g) =
                     Raised IndexError (s\<lparr> graph := Some (add_edge u v gr) \<rparr>, g'))"
    using connect_out_of_range[OF shape out] by blast
  have d1: "g 0 < unfriend s \<longrightarrow> disconnect u v (s, g) = Returned (s, snd (random g))"
    by (simp add: disconnect_def random_def)
  obtain s' where s': "disconnect_edge u v s = Raised IndexError s'" "graph_only s s'"
    using disconnect_edge_out_of_range[OF shape out] by blast
  have d2: "\<not> g 0 < unfriend s \<longrightarrow>
            (\<exists>s'. disconnect u v (s, g) = Raised IndexError (s', snd (random g)) \<and>
                   weights s' = weights s \<and> normalized_weights s' = normalized_weights s \<and>
                   masks s' = masks s)"
    using s' graph_only_fields[OF s'(2)]
    by (auto simp: disconnect_def random_def no_draw_def)
  show ?thesis using r c d1 d2 by blast
qed


text \<open>
  An index of -1 is taken from the end of the axis, so \<^verbatim>\<open>hide(-1, 0, 0)\<close> clears what node
  0 sees of node 1; an index of \<open>n\<close> makes \<^verbatim>\<open>reveal\<close> raise; \<^verbatim>\<open>connect(0, n)\<close> leaves a
  new edge in the graph.
\<close>

theorem out_of_range_counterexample:
  "masks (final (hide (- 1) 0 0 two_nodes)) \<noteq> masks two_nodes \<and>
   reveal 2 0 0 two_nodes = Raised IndexError two_nodes \<and>
   graph (fst (final (connect 0 2 (two_nodes, halves)))) \<noteq> graph two_nodes"
  by (simp add: two_nodes_def hide_def reveal_def connect_def connect_one_way_def no_draw_def
      graph_add_edge_def add_edge_def add_node_def has_edge_def assign_weight_def set_weight_def array_defs)

theorem out_of_range_operations_witness:
  "well_shaped two_nodes \<and> out_of_range (n_nodes two_nodes) 2 \<and>
   reveal 2 0 0 two_nodes = Raised IndexError two_nodes \<and>
   hide 2 0 0 two_nodes = Raised IndexError two_nodes \<and>
   (\<exists>g'. connect 2 0 (two_nodes, halves) =
      Raised IndexError
        (two_nodes\<lparr> graph := Some (add_edge 2 0
            \<lparr> g_directed = False, g_nodes = [0, 1], g_edges = [(0, 1)] \<rparr>) \<rparr>, g')) \<and>
   disconnect 2 0 (two_nodes, halves) = Returned (two_nodes, halves) \<and>
   (\<exists>s'. disconnect 2 0 (two_nodes\<lparr> unfriend := 0 \<rparr>, halves) = Raised IndexError (s', halves) \<and>
      weights s' = weights two_nodes \<and> normalized_weights s' = normalized_weights two_nodes \<and>
      masks s' = masks two_nodes)"
proof -
  have a: "well_shaped two_nodes"
    by (simp add: two_nodes_def well_shaped_def matrix_shape_def)
  have a0: "well_shaped (two_nodes\<lparr> unfriend := 0 \<rparr>)"
    by (simp add: two_nodes_def well_shaped_def matrix_shape_def)
  have b: "out_of_range (n_nodes two_nodes) 2 \<or> out_of_range (n_nodes two_nodes) 0"
    by (simp add: two_nodes_def out_of_range_def)
  have b0: "out_of_range (n_nodes (two_nodes\<lparr> unfriend := 0 \<rparr>)) 2 \<or>
            out_of_range (n_nodes (two_nodes\<lparr> unfriend := 0 \<rparr>)) 0"
    by (simp add: two_nodes_def out_of_range_def)
  have c: "out_of_range (n_nodes two_nodes) 2"
    by (simp add: two_nodes_def out_of_range_def)
  have gr: "graph two_nodes = Some \<lparr> g_directed = False, g_nodes = [0, 1], g_edges = [(0, 1)] \<rparr>"
    by (simp add: two_nodes_def)
  have u1: "halves 0 < unfriend two_nodes" "\<not> halves 0 < unfriend (two_nodes\<lparr> unfriend := 0 \<rparr>)"
    by (simp_all add: two_nodes_def halves_def)
  have r: "snd (random halves) = halves"
    by (simp add: random_halves)
  show ?thesis
    using a c gr u1
      out_of_range_operations[OF a b, of 0 "\<lparr> g_directed = False, g_nodes = [0, 1], g_edges = [(0, 1)] \<rparr>" halves]
      out_of_range_operations[OF a0 b0, of 0 "\<lparr> g_directed = False, g_nodes = [0, 1], g_edges = [(0, 1)] \<rparr>" halves]
    by (simp add: r)
qed

subsection \<open>Self-perception\<close>

lemma preservesI: "(\<And>s. P s \<Longrightarrow> P (final (f s))) \<Longrightarrow> preserves P f"
  by (simp add: preserves_def)

lemma preservesD: "preserves P f \<Longrightarrow> P s \<Longrightarrow> P (final (f s))"
  by (simp add: preserves_def)

lemma preserves_in_order:
  "(\<And>f. f \<in> set fs \<Longrightarrow> preserves P f) \<Longrightarrow> preserves P (in_order fs)"
proof (induction fs)
  case Nil
  show ?case by (simp add: preserves_def)
next
  case (Cons f fs)
  have f: "preserves P f" and rest: "preserves P (in_order fs)"
    using Cons by simp_all
  show ?case
  proof (rule preservesI)
    fix s assume "P s"
    then have "P (final (f s))" using f by (rule preservesD[rotated])
    then show "P (final (in_order (f # fs) s))"
      using rest by (cases "f s") (auto dest: preservesD)
  qed
qed

lemma preserves_for_each:
  "(\<And>x. x \<in> set xs \<Longrightarrow> preserves P (body x)) \<Longrightarrow> preserves P (for_each xs body)"
proof (induction xs)
  case Nil
  show ?case by (simp add: preserves_def)
next
  case (Cons x xs)
  have f: "preserves P (body x)" and rest: "preserves P (for_each xs body)"
    using Cons by simp_all
  show ?case
  proof (rule preservesI)
    fix s assume "P s"
    then have "P (final (body x s))" using f by (rule preservesD[rotated])
    then show "P (final (for_each (x # xs) body s))"
      using rest by (cases "body x s") (auto dest: preservesD)
  qed
qed

lemma preserves_no_draw:
  "preserves P f \<Longrightarrow> preserves (\<lambda>w. P (fst w)) (no_draw f)"
  by (auto simp: preserves_def no_draw_def split: outcome.splits)

lemma preserves_Returned: "preserves P Returned"
  by (simp add: preserves_def)

lemma preserves_if:
  "preserves P f \<Longrightarrow> preserves P h \<Longrightarrow> preserves P (\<lambda>s. if c s then f s else h s)"
  by (simp add: preserves_def)

lemma item_Inr: "item xs i = Inr x \<Longrightarrow> \<exists>j. py_index (length xs) i = Inr j \<and> j < length xs \<and> x = xs ! j"
  by (auto simp: item_def bind_e_def dest: py_index_less split: sum.splits)

lemma setitem_Inr:
  "setitem xs i x = Inr ys \<Longrightarrow> \<exists>j. py_index (length xs) i = Inr j \<and> j < length xs \<and> ys = xs[j := x]"
  by (auto simp: setitem_def bind_e_def dest: py_index_less split: sum.splits)

lemma setitem2_Inr:
  assumes "setitem2 m i j x = Inr m'"
  shows "\<exists>a b. py_index (length m) i = Inr a \<and> a < length m \<and>
               py_index (length (m ! a)) j = Inr b \<and> b < length (m ! a) \<and>
               m' = m[a := (m ! a)[b := x]]"
proof -
  from assms obtain row row' where r: "item m i = Inr row" "setitem row j x = Inr row'"
    "setitem m i row' = Inr m'"
    by (auto simp: setitem2_def bind_e_def split: sum.splits)
  from item_Inr[OF r(1)] obtain a where a: "py_index (length m) i = Inr a" "a < length m" "row = m ! a"
    by blast
  from setitem_Inr[OF r(2)] obtain b where b: "py_index (length row) j = Inr b" "b < length row"
    "row' = row[b := x]" by blast
  from setitem_Inr[OF r(3)] a have "m' = m[a := row']" by auto
  with a b show ?thesis by auto
qed

lemma setitem3_Inr:
  assumes "setitem3 t i j k x = Inr t'"
  shows "\<exists>a b c. py_index (length t) i = Inr a \<and> a < length t \<and>
               py_index (length (t ! a)) j = Inr b \<and> b < length (t ! a) \<and>
               py_index (length (t ! a ! b)) k = Inr c \<and> c < length (t ! a ! b) \<and>
               t' = t[a := (t ! a)[b := (t ! a ! b)[c := x]]]"
proof -
  from assms obtain m m' where r: "item t i = Inr m" "setitem2 m j k x = Inr m'"
    "setitem t i m' = Inr t'"
    by (auto simp: setitem3_def bind_e_def split: sum.splits)
  from item_Inr[OF r(1)] obtain a where a: "py_index (length t) i = Inr a" "a < length t" "m = t ! a"
    by blast
  from setitem2_Inr[OF r(2)] obtain b c where b: "py_index (length m) j = Inr b" "b < length m"
    "py_index (length (m ! b)) k = Inr c" "c < length (m ! b)" "m' = m[b := (m ! b)[c := x]]"
    by blast
  from setitem_Inr[OF r(3)] a have "t' = t[a := m']" by auto
  with a b show ?thesis by auto
qed

lemma matrix_shape_update:
  "matrix_shape r c m \<Longrightarrow> a < length m \<Longrightarrow> matrix_shape r c (m[a := (m ! a)[b := x]])"
  by (auto simp: matrix_shape_def dest!: set_update_subset_insert[THEN subsetD])

lemma setitem2_shape:
  "setitem2 m i j x = Inr m' \<Longrightarrow> matrix_shape r c m \<Longrightarrow> matrix_shape r c m'"
  by (auto dest!: setitem2_Inr simp: matrix_shape_update)

lemma item2_Inr:
  assumes "item2 m i j = Inr x"
  shows "\<exists>a b. py_index (length m) i = Inr a \<and> a < length m \<and>
               py_index (length (m ! a)) j = Inr b \<and> b < length (m ! a) \<and> x = m ! a ! b"
proof -
  from assms obtain row where r: "item m i = Inr row" "item row j = Inr x"
    by (auto simp: item2_def bind_e_def split: sum.splits)
  from item_Inr[OF r(1)] item_Inr[OF r(2)] show ?thesis by auto
qed

lemma sp_inv_frame:
  assumes "sp_inv s" "masks s' = masks s" "attribute_space s' = attribute_space s"
    "n_nodes s' = n_nodes s" "dimensions s' = dimensions s"
  shows "sp_inv s'"
  using assms by (simp add: sp_inv_def masks_shaped_def self_perception_def)

text \<open>A write into the masks keeps the invariant when it is off the diagonal or writes
  the true coordinate.\<close>

lemma masks_write:
  assumes inv: "sp_inv s"
    and w: "setitem3 (masks s) i j k x = Inr t'"
    and ok: "\<And>a b c. py_index (n_nodes s) i = Inr a \<Longrightarrow> py_index (n_nodes s) j = Inr b \<Longrightarrow>
               py_index (dimensions s) k = Inr c \<Longrightarrow> a = b \<Longrightarrow> x = attribute_space s ! a ! c"
  shows "sp_inv (s\<lparr> masks := t' \<rparr>)"
proof -
  let ?t = "masks s"
  from setitem3_Inr[OF w] obtain a b c where
    abc: "py_index (length ?t) i = Inr a" "a < length ?t"
      "py_index (length (?t ! a)) j = Inr b" "b < length (?t ! a)"
      "py_index (length (?t ! a ! b)) k = Inr c" "c < length (?t ! a ! b)"
      "t' = ?t[a := (?t ! a)[b := (?t ! a ! b)[c := x]]]" by blast
  have sh: "length ?t = n_nodes s" "\<forall>m \<in> set ?t. matrix_shape (n_nodes s) (dimensions s) m"
    using inv by (simp_all add: sp_inv_def masks_shaped_def)
  have ma: "matrix_shape (n_nodes s) (dimensions s) (?t ! a)"
    using sh abc(2) by simp
  then have la: "length (?t ! a) = n_nodes s" by (simp add: matrix_shape_def)
  have lb: "length (?t ! a ! b) = dimensions s"
    using ma abc(4) by (simp add: matrix_shape_def)
  have ma': "matrix_shape (n_nodes s) (dimensions s) ((?t ! a)[b := (?t ! a ! b)[c := x]])"
    using ma abc(4) by (simp add: matrix_shape_update)
  have shape': "masks_shaped (s\<lparr> masks := t' \<rparr>)"
    using inv sh ma' abc(7)
    by (auto simp: sp_inv_def masks_shaped_def dest!: set_update_subset_insert[THEN subsetD])
  have diag: "self_perception (s\<lparr> masks := t' \<rparr>)"
    unfolding self_perception_def
  proof (intro ballI)
    fix p q assume "p \<in> set [0 ..< n_nodes (s\<lparr> masks := t' \<rparr>)]"
      "q \<in> set [0 ..< dimensions (s\<lparr> masks := t' \<rparr>)]"
    then have pq: "p < n_nodes s" "q < dimensions s" by simp_all
    have old: "?t ! p ! p ! q = attribute_space s ! p ! q"
      using inv pq by (simp add: sp_inv_def self_perception_def)
    show "masks (s\<lparr> masks := t' \<rparr>) ! p ! p ! q = attribute_space (s\<lparr> masks := t' \<rparr>) ! p ! q"
    proof (cases "p = a \<and> p = b \<and> q = c")
      case True
      have i: "py_index (n_nodes s) i = Inr a" using abc(1) sh(1) by simp
      have j: "py_index (n_nodes s) j = Inr b" using abc(3) la by simp
      have k: "py_index (dimensions s) k = Inr c" using abc(5) lb by simp
      have ab: "a = b" using True by blast
      have x: "x = attribute_space s ! a ! c" using i j k ab by (rule ok)
      have hit: "t' ! a ! b ! c = x" using abc(2,4,6) by (simp add: abc(7))
      have "t' ! p ! p ! q = attribute_space s ! p ! q"
        using True x hit by metis
      then show ?thesis by simp
    next
      case False
      then have "t' ! p ! p ! q = ?t ! p ! p ! q"
        using abc pq sh la lb by (auto simp: nth_list_update)
      then show ?thesis using old by simp
    qed
  qed
  show ?thesis using shape' diag by (simp add: sp_inv_def)
qed

lemma copy_coordinate_sp: "preserves sp_inv (copy_coordinate v u k)"
proof (rule preservesI)
  fix s assume inv: "sp_inv s"
  show "sp_inv (final (copy_coordinate v u k s))"
  proof (cases "item2 (attribute_space s) u k")
    case (Inl e)
    then show ?thesis using inv by (simp add: copy_coordinate_def)
  next
    case (Inr x)
    from item2_Inr[OF Inr] obtain a c where ac:
      "py_index (length (attribute_space s)) u = Inr a" "a < length (attribute_space s)"
      "py_index (length (attribute_space s ! a)) k = Inr c" "x = attribute_space s ! a ! c"
      by blast
    have la: "length (attribute_space s) = n_nodes s"
      and lr: "length (attribute_space s ! a) = dimensions s"
      using inv ac(2) by (simp_all add: sp_inv_def masks_shaped_def matrix_shape_def)
    show ?thesis
    proof (cases "setitem3 (masks s) v u k x")
      case (Inl e)
      then show ?thesis using inv Inr by (simp add: copy_coordinate_def set_mask_def)
    next
      case r: (Inr t')
      have "sp_inv (s\<lparr> masks := t' \<rparr>)"
        using inv r
      proof (rule masks_write)
        fix a' b' c' assume "py_index (n_nodes s) v = Inr a'" "py_index (n_nodes s) u = Inr b'"
          "py_index (dimensions s) k = Inr c'" "a' = b'"
        then show "x = attribute_space s ! a' ! c'"
          using ac la lr by simp
      qed
      then show ?thesis using Inr r by (simp add: copy_coordinate_def set_mask_def)
    qed
  qed
qed

lemma set_mask_off_diagonal:
  assumes "0 \<le> i" "0 \<le> j" "i \<noteq> j"
  shows "preserves sp_inv (set_mask i j k x)"
proof (rule preservesI)
  fix s assume inv: "sp_inv s"
  show "sp_inv (final (set_mask i j k x s))"
  proof (cases "setitem3 (masks s) i j k x")
    case (Inl e)
    then show ?thesis using inv by (simp add: set_mask_def)
  next
    case r: (Inr t')
    have "sp_inv (s\<lparr> masks := t' \<rparr>)"
      using inv r
    proof (rule masks_write)
      fix a b c assume "py_index (n_nodes s) i = Inr a" "py_index (n_nodes s) j = Inr b" "a = b"
      then have False using assms by (auto simp: py_index_def split: if_splits)
      then show "x = attribute_space s ! a ! c" ..
    qed
    then show ?thesis using r by (simp add: set_mask_def)
  qed
qed

lemma set_weight_sp: "preserves sp_inv (set_weight i j x)"
  by (rule preservesI)
    (auto simp: set_weight_def split: sum.splits intro: sp_inv_frame)

lemma set_normalized_sp: "preserves sp_inv (set_normalized i j x)"
  by (rule preservesI)
    (auto simp: set_normalized_def split: sum.splits intro: sp_inv_frame)

lemma graph_add_edge_sp: "preserves sp_inv (graph_add_edge u v)"
  by (rule preservesI)
    (auto simp: graph_add_edge_def split: option.splits intro: sp_inv_frame)

lemma graph_remove_edge_sp: "preserves sp_inv (graph_remove_edge u v)"
  by (rule preservesI)
    (auto simp: graph_remove_edge_def split: option.splits sum.splits intro: sp_inv_frame)

lemma and_then_final:
  "P (final r) \<Longrightarrow> (\<And>s. P s \<Longrightarrow> P (final (f s))) \<Longrightarrow> P (final (and_then r f))"
  by (cases r) simp_all

lemma update_weight_column_sp: "preserves sp_inv (update_weight_column u)"
proof (rule preservesI)
  fix s assume inv: "sp_inv s"
  have "preserves sp_inv (for_each (map int [0 ..< n_nodes s])
                 (\<lambda>v. set_normalized v u (Finite 0)))"
    by (rule preserves_for_each) (rule set_normalized_sp)
  then have zero: "sp_inv (final (for_each (map int [0 ..< n_nodes s])
                 (\<lambda>v. set_normalized v u (Finite 0)) s))"
    using inv by (rule preservesD)
  have body: "preserves sp_inv (\<lambda>s2. case item2 (weights s2) v u of
                 Inl e \<Rightarrow> Raised e s2
               | Inr w \<Rightarrow> set_normalized v u (np_div w tot) s2)" for v tot
    by (rule preservesI) (auto split: sum.splits dest: preservesD[OF set_normalized_sp])
  have rest: "sp_inv (final (case column_total s1 u of
            Inl e \<Rightarrow> Raised e s1
          | Inr tot \<Rightarrow>
              (case get_neighbors s1 u of
                 Inl e \<Rightarrow> Raised e s1
               | Inr nbrs \<Rightarrow>
                   and_then
                     (for_each nbrs
                        (\<lambda>v s2. case item2 (weights s2) v u of
                                   Inl e \<Rightarrow> Raised e s2
                                 | Inr w \<Rightarrow> set_normalized v u (np_div w tot) s2)
                        s1)
                     (set_normalized u u (np_div 1 tot)))))" if s1: "sp_inv s1" for s1
  proof (cases "column_total s1 u")
    case (Inl e)
    then show ?thesis using s1 by simp
  next
    case tot: (Inr tot)
    show ?thesis
    proof (cases "get_neighbors s1 u")
      case (Inl e)
      then show ?thesis using s1 tot by simp
    next
      case (Inr nbrs)
      have "preserves sp_inv (for_each nbrs
                        (\<lambda>v s2. case item2 (weights s2) v u of
                                   Inl e \<Rightarrow> Raised e s2
                                 | Inr w \<Rightarrow> set_normalized v u (np_div w tot) s2))"
        by (rule preserves_for_each) (rule body)
      then have "sp_inv (final (for_each nbrs
                        (\<lambda>v s2. case item2 (weights s2) v u of
                                   Inl e \<Rightarrow> Raised e s2
                                 | Inr w \<Rightarrow> set_normalized v u (np_div w tot) s2) s1))"
        using s1 by (rule preservesD)
      then have "sp_inv (final (and_then (for_each nbrs
                        (\<lambda>v s2. case item2 (weights s2) v u of
                                   Inl e \<Rightarrow> Raised e s2
                                 | Inr w \<Rightarrow> set_normalized v u (np_div w tot) s2) s1)
                     (set_normalized u u (np_div 1 tot))))"
        by (rule and_then_final) (rule preservesD[OF set_normalized_sp])
      then show ?thesis using tot Inr by simp
    qed
  qed
  show "sp_inv (final (update_weight_column u s))"
    unfolding update_weight_column_def
    using zero by (rule and_then_final) (rule rest)
qed

lemma no_draw_final: "preserves P f \<Longrightarrow> P (fst w) \<Longrightarrow> P (fst (final (no_draw f w)))"
  by (auto simp: preserves_def no_draw_def split: outcome.splits)

lemma assign_weight_sp: "preserves sp_world (assign_weight u v)"
proof (rule preservesI)
  fix w :: world assume inv: "sp_inv (fst w)"
  show "sp_inv (fst (final (assign_weight u v w)))"
  proof (cases "weight (fst w)")
    case (WFloat x)
    then show ?thesis
      using no_draw_final[OF set_weight_sp, of w u v x] inv by (simp add: assign_weight_def)
  next
    case WRandom
    obtain r g' where r: "random (snd w) = (r, g')" by (cases "random (snd w)")
    show ?thesis
      using no_draw_final[OF set_weight_sp, of "(fst w, g')" u v r] inv WRandom r
      by (simp add: assign_weight_def)
  qed
qed

lemma connect_masks_sp: "preserves sp_inv (connect_masks v u)"
proof (rule preservesI)
  fix s assume inv: "sp_inv s"
  have "preserves sp_inv (for_each (map int [0 ..< dimensions s]) (copy_coordinate v u))"
    by (rule preserves_for_each) (rule copy_coordinate_sp)
  then have "sp_inv (final (for_each (map int [0 ..< dimensions s]) (copy_coordinate v u) s))"
    using inv by (rule preservesD)
  then show "sp_inv (final (connect_masks v u s))"
    using inv by (auto simp: connect_masks_def split: option.splits)
qed

lemma connect_one_way_sp: "preserves sp_world (connect_one_way u v)"
  unfolding connect_one_way_def
  by (rule preserves_in_order)
    (auto intro: preserves_no_draw graph_add_edge_sp assign_weight_sp connect_masks_sp)

lemma connect_mirror_sp: "preserves sp_world (connect_mirror u v)"
  using connect_one_way_sp[of v u] by (simp add: preserves_def connect_mirror_def)

lemma connect_sp: "preserves sp_world (connect u v)"
proof (cases "u = v")
  case True
  then show ?thesis by (simp add: preserves_def connect_def)
next
  case False
  have "preserves sp_world (in_order
        [ connect_one_way u v,
          connect_mirror u v,
          no_draw (update_weight_column u),
          no_draw (update_weight_column v) ])"
    by (rule preserves_in_order)
      (auto intro: preserves_no_draw connect_one_way_sp connect_mirror_sp update_weight_column_sp)
  then show ?thesis using False by (simp add: preserves_def connect_def)
qed

lemma zero_masks_sp:
  assumes "0 \<le> u" "0 \<le> v" "u \<noteq> v"
  shows "preserves sp_inv (zero_masks u v)"
proof (rule preservesI)
  fix s assume inv: "sp_inv s"
  have "preserves sp_inv (in_order [ set_mask v u k 0, set_mask u v k 0 ])" for k
    using assms by (intro preserves_in_order) (auto intro: set_mask_off_diagonal)
  then have "preserves sp_inv (for_each (map int [0 ..< dimensions s])
       (\<lambda>k. in_order [ set_mask v u k 0, set_mask u v k 0 ]))"
    by (intro preserves_for_each)
  then show "sp_inv (final (zero_masks u v s))"
    using inv by (simp add: zero_masks_def preserves_def)
qed

lemma disconnect_edge_sp:
  assumes "0 \<le> u" "0 \<le> v" "u \<noteq> v"
  shows "preserves sp_inv (disconnect_edge u v)"
proof (rule preservesI)
  fix s assume inv: "sp_inv s"
  define s1 where "s1 = try_pass (in_order [graph_remove_edge u v, zero_masks u v] s)"
  define s2 where "s2 = try_pass (if symmetric s1 then graph_remove_edge v u s1 else Returned s1)"
  have "preserves sp_inv (in_order [graph_remove_edge u v, zero_masks u v])"
    using assms by (intro preserves_in_order) (auto intro: graph_remove_edge_sp zero_masks_sp)
  then have i1: "sp_inv s1" using inv by (simp add: s1_def try_pass_def preserves_def)
  have i2: "sp_inv s2"
    using i1 preservesD[OF graph_remove_edge_sp, of s1 v u]
    by (simp add: s2_def try_pass_def)
  have "preserves sp_inv (in_order [set_weight u v 0, set_weight v u 0, update_weight_column u,
                update_weight_column v])"
    by (intro preserves_in_order) (auto intro: set_weight_sp update_weight_column_sp)
  moreover have "disconnect_edge u v s =
      in_order [set_weight u v 0, set_weight v u 0, update_weight_column u,
                update_weight_column v] s2"
    by (simp only: disconnect_edge_def Let_def s1_def s2_def)
  ultimately show "sp_inv (final (disconnect_edge u v s))"
    using i2 by (simp add: preserves_def)
qed

lemma disconnect_sp:
  assumes "0 \<le> u" "0 \<le> v" "u \<noteq> v"
  shows "preserves sp_world (disconnect u v)"
proof (rule preservesI)
  fix w :: world assume "sp_inv (fst w)"
  then show "sp_inv (fst (final (disconnect u v w)))"
    using no_draw_final[OF disconnect_edge_sp[OF assms], of "(fst w, g)" for g]
    by (auto simp: disconnect_def split: prod.splits)
qed

lemma reveal_hide_sp:
  assumes "0 \<le> u" "0 \<le> v" "u \<noteq> v"
  shows "preserves sp_inv (reveal u v k)" "preserves sp_inv (hide u v k)"
proof -
  have "reveal u v k = set_mask v u k 1" "hide u v k = set_mask v u k 0"
    by (auto simp: reveal_def hide_def set_mask_def fun_eq_iff)
  then show "preserves sp_inv (reveal u v k)" "preserves sp_inv (hide u v k)"
    using set_mask_off_diagonal[of v u] assms by auto
qed

lemma for_each_append:
  "for_each (xs @ ys) body s = and_then (for_each xs body s) (for_each ys body)"
  by (induction xs arbitrary: s) (auto split: outcome.splits)

lemma for_each_returns:
  assumes "P s" "\<And>x s. x \<in> set xs \<Longrightarrow> P s \<Longrightarrow> \<exists>s'. body x s = Returned s' \<and> P s'"
  shows "\<exists>s'. for_each xs body s = Returned s' \<and> P s'"
  using assms
proof (induction xs arbitrary: s)
  case Nil
  then show ?case by simp
next
  case (Cons x xs)
  from Cons.prems obtain s1 where s1: "body x s = Returned s1" "P s1" by (meson list.set_intros(1))
  have "\<exists>s'. for_each xs body s1 = Returned s' \<and> P s'"
    using s1(2) Cons.prems(2) by (intro Cons.IH) auto
  then show ?case using s1 by simp
qed

lemma for_each_upt_returns:
  assumes "Q 0 s" "\<And>i s. i < n \<Longrightarrow> Q i s \<Longrightarrow> \<exists>s'. body (int i) s = Returned s' \<and> Q (Suc i) s'"
  shows "\<exists>s'. for_each (map int [0 ..< n]) body s = Returned s' \<and> Q n s'"
  using assms(2)
proof (induction n)
  case 0
  then show ?case using assms(1) by simp
next
  case (Suc n)
  have "\<exists>s'. for_each (map int [0 ..< n]) body s = Returned s' \<and> Q n s'"
    using Suc.prems by (intro Suc.IH) auto
  then obtain s1 where s1: "for_each (map int [0 ..< n]) body s = Returned s1" "Q n s1" by blast
  obtain s2 where s2: "body (int n) s1 = Returned s2" "Q (Suc n) s2"
    using Suc.prems[of n s1] s1(2) by auto
  show ?case using s1 s2 by (simp add: for_each_append)
qed

lemma get_neighbors_ok:
  assumes ok: "graph_ok s" and u: "is_node s u"
  shows "\<exists>nbrs. get_neighbors s u = Inr nbrs \<and> (\<forall>j \<in> set nbrs. is_node s j) \<and>
           (loop_free s \<longrightarrow> (\<forall>j \<in> set nbrs. j \<noteq> u))"
proof -
  from ok obtain g where g: "graph s = Some g" "g_directed g = directed s"
    "g_nodes g = map int [0 ..< n_nodes s]"
    "\<forall>e \<in> set (g_edges g). is_node s (fst e) \<and> is_node s (snd e)"
    by (auto simp: graph_ok_def split: option.splits)
  have mem: "u \<in> set (g_nodes g)"
  proof -
    have "u = int (nat u)" "nat u < n_nodes s" using u by (auto simp: is_node_def)
    then show ?thesis unfolding g(3) by (metis atLeast0LessThan image_eqI lessThan_iff list.set_map set_upt)
  qed
  show ?thesis
  proof (cases "directed s")
    case True
    then show ?thesis using g mem
      by (auto simp: get_neighbors_def predecessors_def loop_free_def)
  next
    case False
    then show ?thesis using g mem
      by (auto simp: get_neighbors_def neighbors_def loop_free_def split: if_splits)
  qed
qed

text \<open>A write at resolved, in-range indices.\<close>

lemma setitem3_node:
  assumes "length t = n" "\<forall>m \<in> set t. matrix_shape n c m"
    "a < n" "b < n" "k < c"
  shows "setitem3 t (int a) (int b) (int k) x = Inr (t[a := (t ! a)[b := (t ! a ! b)[k := x]]])"
proof -
  have ma: "matrix_shape n c (t ! a)" using assms by simp
  then have la: "length (t ! a) = n" and lb: "length (t ! a ! b) = c"
    using assms by (simp_all add: matrix_shape_def)
  show ?thesis using assms la lb
    by (simp add: setitem3_def setitem2_def item_def setitem_def py_index_def bind_e_def)
qed

lemma perceives_write:
  assumes p: "perceives s0 S s" and a: "a < n_nodes s0" and b: "b < n_nodes s0"
    and k: "k < dimensions s0"
    and x: "a = b \<Longrightarrow> (a, k) \<in> S \<Longrightarrow> x = attribute_space s0 ! a ! k"
  shows "\<exists>s'. set_mask (int a) (int b) (int k) x s = Returned s' \<and> perceives s0 S s' \<and>
           masks s' ! a ! b ! k = x"
proof -
  from p obtain t where t: "s = s0\<lparr> masks := t \<rparr>" and sh: "masks_shaped s"
    and S: "\<forall>(p, q) \<in> S. masks s ! p ! p ! q = attribute_space s ! p ! q"
    by (auto simp: perceives_def)
  have f: "n_nodes s = n_nodes s0" "dimensions s = dimensions s0"
    "attribute_space s = attribute_space s0" "masks s = t"
    using t by simp_all
  have lt: "length t = n_nodes s0" "\<forall>m \<in> set t. matrix_shape (n_nodes s0) (dimensions s0) m"
    using sh f by (simp_all add: masks_shaped_def)
  let ?t' = "t[a := (t ! a)[b := (t ! a ! b)[k := x]]]"
  have w: "setitem3 t (int a) (int b) (int k) x = Inr ?t'"
    using lt a b k by (rule setitem3_node)
  have ma: "matrix_shape (n_nodes s0) (dimensions s0) (t ! a)" using lt a by simp
  then have la: "length (t ! a) = n_nodes s0" and lb: "length (t ! a ! b) = dimensions s0"
    using b by (simp_all add: matrix_shape_def)
  have r: "set_mask (int a) (int b) (int k) x s = Returned (s\<lparr> masks := ?t' \<rparr>)"
    using w f by (simp add: set_mask_def)
  have sh': "masks_shaped (s\<lparr> masks := ?t' \<rparr>)"
    using sh f lt a matrix_shape_update[OF ma, where a = b and b = k and x = x] b la
    by (auto simp: masks_shaped_def dest!: set_update_subset_insert[THEN subsetD])
  have S': "?t' ! p ! p ! q = attribute_space s0 ! p ! q" if pq: "(p, q) \<in> S" for p q
  proof -
    have old: "t ! p ! p ! q = attribute_space s0 ! p ! q" using S pq f by auto
    show ?thesis
    proof (cases "p = a \<and> a = b \<and> q = k")
      case True
      then have "x = attribute_space s0 ! a ! k" using x pq by simp
      moreover have "?t' ! a ! b ! k = x" using a b k lt la lb by simp
      ultimately show ?thesis using True by metis
    next
      case False
      then have "?t' ! p ! p ! q = t ! p ! p ! q"
        using a b k lt la lb by (auto simp: nth_list_update)
      then show ?thesis using old by simp
    qed
  qed
  have hit: "?t' ! a ! b ! k = x" using a b k lt la lb by simp
  have e: "s\<lparr> masks := ?t' \<rparr> = s0\<lparr> masks := ?t' \<rparr>"
    by (simp add: t)
  have S'': "\<forall>(p, q) \<in> S. masks (s\<lparr> masks := ?t' \<rparr>) ! p ! p ! q =
               attribute_space (s\<lparr> masks := ?t' \<rparr>) ! p ! q"
    using S' by (simp add: f(3) split_beta)
  have "perceives s0 S (s\<lparr> masks := ?t' \<rparr>)"
    unfolding perceives_def using e sh' S'' by blast
  then show ?thesis using r hit by simp
qed

lemma perceives_fields:
  "perceives s0 S s \<Longrightarrow> n_nodes s = n_nodes s0 \<and> dimensions s = dimensions s0 \<and>
     attribute_space s = attribute_space s0 \<and> visibility s = visibility s0 \<and>
     get_neighbors s = get_neighbors s0"
  by (auto simp: perceives_def get_neighbors_def fun_eq_iff split: option.splits)

lemma perceives_mono: "perceives s0 S s \<Longrightarrow> T \<subseteq> S \<Longrightarrow> perceives s0 T s"
  by (auto simp: perceives_def)

lemma item2_attribute:
  assumes "perceives s0 S s" "i < n_nodes s0" "k < dimensions s0"
  shows "item2 (attribute_space s) (int i) (int k) = Inr (attribute_space s0 ! i ! k)"
proof -
  have sh: "matrix_shape (n_nodes s0) (dimensions s0) (attribute_space s0)"
    using assms(1) perceives_fields[OF assms(1)] by (auto simp: perceives_def masks_shaped_def)
  then have "length (attribute_space s0 ! i) = dimensions s0"
    using assms(2) by (simp add: matrix_shape_def)
  then show ?thesis using sh assms perceives_fields[OF assms(1)]
    by (simp add: item2_def item_def py_index_def bind_e_def matrix_shape_def)
qed

lemma copy_coordinate_perceives:
  assumes p: "perceives s0 S s" and i: "i < n_nodes s0" and j: "j < n_nodes s0"
    and k: "k < dimensions s0"
  shows "\<exists>s'. copy_coordinate (int j) (int i) (int k) s = Returned s' \<and> perceives s0 S s' \<and>
           masks s' ! j ! i ! k = attribute_space s0 ! i ! k"
  using perceives_write[OF p j i k, of "attribute_space s0 ! i ! k"] item2_attribute[OF p i k]
  by (auto simp: copy_coordinate_def)

lemma random_coordinate_perceives:
  assumes p: "perceives s0 S (fst w)" and i: "i < n_nodes s0" and j: "j < n_nodes s0"
    and k: "k < dimensions s0" and ne: "j \<noteq> i"
  shows "\<exists>w'. random_coordinate (int j) (int i) (int k) w = Returned w' \<and> perceives s0 S (fst w')"
proof -
  obtain x g' where c: "choice2 0 (attribute_space s0 ! i ! k) (snd w) = (x, g')"
    by (cases "choice2 0 (attribute_space s0 ! i ! k) (snd w)")
  obtain s' where "set_mask (int j) (int i) (int k) x (fst w) = Returned s'" "perceives s0 S s'"
    using perceives_write[OF p j i k, of x] ne by auto
  then show ?thesis using item2_attribute[OF p i k] c
    by (simp add: random_coordinate_def no_draw_def)
qed

lemma perceives_entry:
  "perceives s0 S s \<Longrightarrow> (p, q) \<in> S \<Longrightarrow> masks s ! p ! p ! q = attribute_space s0 ! p ! q"
  using perceives_fields[of s0 S s] by (fastforce simp: perceives_def)

lemma perceives_extend:
  assumes p: "perceives s0 S s"
    and T: "\<And>p q. (p, q) \<in> T \<Longrightarrow> masks s ! p ! p ! q = attribute_space s0 ! p ! q"
  shows "perceives s0 (S \<union> T) s"
proof -
  have a: "attribute_space s = attribute_space s0" using perceives_fields[OF p] by simp
  have "masks s ! p ! p ! q = attribute_space s ! p ! q" if "(p, q) \<in> S \<union> T" for p q
    using that perceives_entry[OF p, of p q] T[of p q] a by auto
  then have "\<forall>(p, q) \<in> S \<union> T. masks s ! p ! p ! q = attribute_space s ! p ! q"
    by (simp add: split_beta)
  moreover have "(\<exists>t. s = s0\<lparr> masks := t \<rparr>) \<and> masks_shaped s"
    using p by (simp add: perceives_def)
  ultimately show ?thesis unfolding perceives_def by blast
qed

lemma init_neighbor_mask_perceives:
  assumes p: "perceives s0 S (fst w)" and i: "is_node s0 i" and j: "is_node s0 j"
    and ne: "visibility s0 = ''random'' \<longrightarrow> j \<noteq> i"
  shows "\<exists>w'. init_neighbor_mask i j w = Returned w' \<and> perceives s0 S (fst w')"
proof -
  let ?P = "\<lambda>w. perceives s0 S (fst w)"
  obtain a b where ab: "i = int a" "a < n_nodes s0" "j = int b" "b < n_nodes s0"
    using i j by (auto simp: is_node_def intro: that[of "nat i" "nat j"])
  have f: "visibility (fst w) = visibility s0" "dimensions (fst w) = dimensions s0"
    using perceives_fields[OF p] by simp_all
  have rnd: "\<exists>w'. for_each (map int [0 ..< dimensions s0]) (random_coordinate j i) w = Returned w'
               \<and> ?P w'" if "b \<noteq> a"
  proof (rule for_each_returns[where P = ?P, OF p])
    fix x and w1 :: world
    assume "x \<in> set (map int [0 ..< dimensions s0])" "perceives s0 S (fst w1)"
    then obtain k where k: "x = int k" "k < dimensions s0" and p1: "perceives s0 S (fst w1)"
      by auto
    show "\<exists>w'. random_coordinate j i x w1 = Returned w' \<and> perceives s0 S (fst w')"
      using random_coordinate_perceives[OF p1 ab(2) ab(4) k(2) that] ab k by simp
  qed
  have vis: "\<exists>w'. for_each (map int [0 ..< dimensions s0])
                     (\<lambda>k. no_draw (copy_coordinate j i k)) w = Returned w' \<and> ?P w'"
  proof (rule for_each_returns[where P = ?P, OF p])
    fix x and w1 :: world
    assume "x \<in> set (map int [0 ..< dimensions s0])" "perceives s0 S (fst w1)"
    then obtain k where k: "x = int k" "k < dimensions s0" and p1: "perceives s0 S (fst w1)"
      by auto
    obtain s' where "copy_coordinate (int b) (int a) (int k) (fst w1) = Returned s'"
      "perceives s0 S s'"
      using copy_coordinate_perceives[OF p1 ab(2) ab(4) k(2)] by blast
    then show "\<exists>w'. no_draw (copy_coordinate j i x) w1 = Returned w' \<and> perceives s0 S (fst w')"
      using ab k by (simp add: no_draw_def)
  qed
  show ?thesis
  proof (cases "visibility s0 = ''random''")
    case True
    then have "b \<noteq> a" using ne ab by auto
    then show ?thesis using rnd True f by (simp add: init_neighbor_mask_def)
  next
    case False
    show ?thesis
    proof (cases "visibility s0 = ''visible''")
      case True
      then show ?thesis using vis False f by (simp add: init_neighbor_mask_def)
    next
      case nv: False
      have "init_neighbor_mask i j w = Returned w"
        using False nv f by (simp add: init_neighbor_mask_def)
      then show ?thesis using p by simp
    qed
  qed
qed

lemma init_node_masks_perceives:
  assumes p: "perceives s0 S (fst w)" and i: "i < n_nodes s0"
    and ok: "graph_ok s0" and lf: "visibility s0 = ''random'' \<longrightarrow> loop_free s0"
  shows "\<exists>w'. init_node_masks (int i) w = Returned w' \<and>
           perceives s0 (S \<union> {i} \<times> {..< dimensions s0}) (fst w')"
proof -
  let ?K = "dimensions s0"
  let ?Q = "\<lambda>k w. perceives s0 S (fst w) \<and> (\<forall>q < k. masks (fst w) ! i ! i ! q = attribute_space s0 ! i ! q)"
  have f: "dimensions (fst w) = ?K" using perceives_fields[OF p] by simp
  have base: "?Q 0 w" using p by simp
  have step: "\<exists>w'. no_draw (copy_coordinate (int i) (int i) (int k)) w1 = Returned w' \<and> ?Q (Suc k) w'"
    if k: "k < ?K" and q: "?Q k w1" for k and w1 :: world
  proof -
    obtain s' where s': "copy_coordinate (int i) (int i) (int k) (fst w1) = Returned s'"
      "perceives s0 (S \<union> {i} \<times> {..< k}) s'" "masks s' ! i ! i ! k = attribute_space s0 ! i ! k"
    proof -
      have "perceives s0 (S \<union> {i} \<times> {..< k}) (fst w1)"
        using q by (intro perceives_extend) auto
      from copy_coordinate_perceives[OF this i i k] show ?thesis using that by blast
    qed
    have "masks s' ! i ! i ! q = attribute_space s0 ! i ! q" if "q < Suc k" for q
    proof (cases "q = k")
      case True
      then show ?thesis using s'(3) by simp
    next
      case False
      then have "(i, q) \<in> S \<union> {i} \<times> {..< k}" using that by auto
      then show ?thesis using s'(2) by (rule perceives_entry[rotated])
    qed
    moreover have "perceives s0 S s'" using s'(2) by (rule perceives_mono) simp
    ultimately show ?thesis
      using s'(1) by (simp add: no_draw_def)
  qed
  have "\<exists>w1. for_each (map int [0 ..< ?K]) (\<lambda>k. no_draw (copy_coordinate (int i) (int i) k)) w
            = Returned w1 \<and> ?Q ?K w1"
    using for_each_upt_returns[where Q = ?Q and n = ?K and s = w
        and body = "\<lambda>k. no_draw (copy_coordinate (int i) (int i) k)", OF base step]
    by blast
  then obtain w1 where w1: "for_each (map int [0 ..< ?K])
       (\<lambda>k. no_draw (copy_coordinate (int i) (int i) k)) w = Returned w1" "?Q ?K w1" by blast
  let ?S' = "S \<union> {i} \<times> {..< ?K}"
  have p1: "perceives s0 ?S' (fst w1)"
    using w1(2) by (intro perceives_extend) auto
  have node: "is_node s0 (int i)" using i by (simp add: is_node_def)
  obtain nbrs where nb: "get_neighbors s0 (int i) = Inr nbrs" "\<forall>j \<in> set nbrs. is_node s0 j"
    "loop_free s0 \<longrightarrow> (\<forall>j \<in> set nbrs. j \<noteq> int i)"
    using get_neighbors_ok[OF ok node] by blast
  have gn: "get_neighbors (fst w1) (int i) = Inr nbrs"
    using nb(1) perceives_fields[OF p1] by simp
  have "\<exists>w'. for_each nbrs (init_neighbor_mask (int i)) w1 = Returned w' \<and> perceives s0 ?S' (fst w')"
  proof (rule for_each_returns[where P = "\<lambda>w. perceives s0 ?S' (fst w)", OF p1])
    fix j and w2 :: world assume j: "j \<in> set nbrs" and p2: "perceives s0 ?S' (fst w2)"
    have "is_node s0 j" "visibility s0 = ''random'' \<longrightarrow> j \<noteq> int i"
      using j nb lf by auto
    then show "\<exists>w'. init_neighbor_mask (int i) j w2 = Returned w' \<and> perceives s0 ?S' (fst w')"
      using init_neighbor_mask_perceives[OF p2 node] by blast
  qed
  then obtain w' where w': "for_each nbrs (init_neighbor_mask (int i)) w1 = Returned w'"
    "perceives s0 ?S' (fst w')" by blast
  have "init_node_masks (int i) w = Returned w'"
    using w1(1) gn f w'(1) by (simp add: init_node_masks_def)
  then show ?thesis using w'(2) by blast
qed

lemma zeros3_shape:
  "length (zeros3 n n c) = n \<and> (\<forall>m \<in> set (zeros3 n n c). matrix_shape n c m)"
  by (auto simp: zeros3_def matrix_shape_def)

lemma initialize_masks_perceives:
  assumes ok: "graph_ok s0"
    and sh: "matrix_shape (n_nodes s0) (dimensions s0) (attribute_space s0)"
    and lf: "visibility s0 = ''random'' \<longrightarrow> loop_free s0"
  shows "\<exists>s g'. initialize_masks (s0, g0) = Returned (s, g') \<and> masks_shaped s \<and> self_perception s \<and>
           (\<exists>t. s = s0\<lparr> masks := t \<rparr>)"
proof -
  let ?n = "n_nodes s0" and ?K = "dimensions s0"
  let ?s00 = "s0\<lparr> masks := zeros3 ?n ?n ?K \<rparr>"
  let ?Q = "\<lambda>m w. perceives ?s00 ({..< m} \<times> {..< ?K}) (fst w)"
  have ok0: "graph_ok ?s00" using ok by (simp add: graph_ok_def is_node_def split: option.splits)
  have lf0: "visibility ?s00 = ''random'' \<longrightarrow> loop_free ?s00" using lf by (simp add: loop_free_def split: option.splits)
  have base: "?Q 0 (?s00, g0)"
  proof -
    have "masks_shaped ?s00" using sh zeros3_shape[of ?n ?K] by (simp add: masks_shaped_def)
    moreover have "\<exists>t. ?s00 = ?s00\<lparr> masks := t \<rparr>" by (rule exI[of _ "zeros3 ?n ?n ?K"]) simp
    ultimately show ?thesis unfolding perceives_def by simp
  qed
  have step: "\<exists>w'. init_node_masks (int i) w = Returned w' \<and> ?Q (Suc i) w'"
    if i: "i < ?n" and q: "?Q i w" for i and w :: world
  proof -
    have "{..< i} \<times> {..< ?K} \<union> {i} \<times> {..< dimensions ?s00} = {..< Suc i} \<times> {..< ?K}"
      by (auto simp: less_Suc_eq)
    then show ?thesis
      using init_node_masks_perceives[OF q _ ok0 lf0, of i] i by simp
  qed
  have "\<exists>w'. for_each (map int [0 ..< ?n]) init_node_masks (?s00, g0) = Returned w' \<and> ?Q ?n w'"
    using for_each_upt_returns[where Q = ?Q and n = ?n and s = "(?s00, g0)"
        and body = init_node_masks, OF base step]
    by blast
  then obtain w' where w': "for_each (map int [0 ..< ?n]) init_node_masks (?s00, g0) = Returned w'"
    "?Q ?n w'" by blast
  have r: "initialize_masks (s0, g0) = Returned (fst w', snd w')"
    using w'(1) by (simp add: initialize_masks_def Let_def)
  from w'(2) obtain t where t: "fst w' = ?s00\<lparr> masks := t \<rparr>" and ms: "masks_shaped (fst w')"
    and d: "\<forall>(p, q) \<in> {..< ?n} \<times> {..< ?K}. masks (fst w') ! p ! p ! q = attribute_space (fst w') ! p ! q"
    unfolding perceives_def by blast
  have sp: "self_perception (fst w')"
    unfolding self_perception_def using d t by simp
  have "fst w' = s0\<lparr> masks := t \<rparr>" using t by simp
  then show ?thesis using r ms sp by blast
qed

lemma upt_small: "[0 ..< 1] = [0]" "[0 ..< 2] = [0, 1]" "[0 ..< 3] = [0, 1, 2]"
  by (simp_all add: eval_nat_numeral)

text \<open>
  C1 (as amended). On a well-formed graph \<^verbatim>\<open>initialize_masks\<close> returns with
  \<open>M[i][i][k] = attribute[i][k]\<close> for every node and coordinate (in the \<^verbatim>\<open>'random'\<close>
  visibility mode the graph must have no edge from a node to itself). The equality is kept
  by every \<^verbatim>\<open>connect\<close>, and by \<^verbatim>\<open>disconnect\<close>, \<^verbatim>\<open>hide\<close> and
  \<^verbatim>\<open>reveal\<close> between two different nodes.
\<close>

theorem self_perception_maintained:
  "(graph_ok s0 \<and> matrix_shape (n_nodes s0) (dimensions s0) (attribute_space s0) \<and>
      (visibility s0 = ''random'' \<longrightarrow> loop_free s0) \<longrightarrow>
      (\<exists>s1 g1. initialize_masks (s0, g0) = Returned (s1, g1) \<and>
                masks_shaped s1 \<and> self_perception s1)) \<and>
   (masks_shaped s \<and> self_perception s \<longrightarrow>
      masks_shaped (fst (final (connect u v (s, g)))) \<and>
      self_perception (fst (final (connect u v (s, g)))) \<and>
      (is_node s u \<and> is_node s v \<and> u \<noteq> v \<longrightarrow>
         masks_shaped (fst (final (disconnect u v (s, g)))) \<and>
         self_perception (fst (final (disconnect u v (s, g)))) \<and>
         masks_shaped (final (hide u v k s)) \<and> self_perception (final (hide u v k s)) \<and>
         masks_shaped (final (reveal u v k s)) \<and> self_perception (final (reveal u v k s))))"
proof -
  have init: "\<exists>s1 g1. initialize_masks (s0, g0) = Returned (s1, g1) \<and>
                masks_shaped s1 \<and> self_perception s1"
    if "graph_ok s0" "matrix_shape (n_nodes s0) (dimensions s0) (attribute_space s0)"
      "visibility s0 = ''random'' \<longrightarrow> loop_free s0"
    using initialize_masks_perceives[OF that, of g0] by blast
  have con: "sp_inv (fst (final (connect u v (s, g))))" if "sp_inv s"
    using preservesD[OF connect_sp, of "(s, g)" u v] that by simp
  have rest: "sp_inv (fst (final (disconnect u v (s, g)))) \<and> sp_inv (final (hide u v k s)) \<and>
      sp_inv (final (reveal u v k s))"
    if inv: "sp_inv s" and uv: "is_node s u" "is_node s v" "u \<noteq> v"
  proof -
    have nn: "0 \<le> u" "0 \<le> v" using uv by (simp_all add: is_node_def)
    show ?thesis
      using preservesD[OF disconnect_sp[OF nn uv(3)], of "(s, g)"]
        preservesD[OF reveal_hide_sp(1)[OF nn uv(3)], of s k]
        preservesD[OF reveal_hide_sp(2)[OF nn uv(3)], of s k] inv
      by simp
  qed
  show ?thesis using init con rest unfolding sp_inv_def by blast
qed

text \<open>
  The update phase flips the opinion of node 0 and leaves its self-mask at the old value;
  \<^verbatim>\<open>hide(0, 0, 0)\<close> clears the self-mask of node 0.
\<close>

theorem self_perception_counterexample:
  "masks_shaped three_nodes \<and> self_perception three_nodes \<and>
   \<not> self_perception (fst (final (update_attributes (three_nodes, halves)))) \<and>
   \<not> self_perception (final (hide 0 0 0 three_nodes))"
proof -
  have a: "masks_shaped three_nodes"
    by (simp add: three_nodes_def masks_shaped_def matrix_shape_def)
  have b: "self_perception three_nodes"
    by (simp add: three_nodes_def self_perception_def upt_small)
  have u: "fst (final (update_attributes (three_nodes, halves))) =
     three_nodes\<lparr> attribute_space := [[- 1], [- 1], [- 1]] \<rparr>"
    by (simp add: three_nodes_def update_attributes_def consider_node_def
        consider_coordinate_def second_family_def gate_def agreement_def get_local_average_def
        get_neighbors_def neighbors_def sum_axis0_def ncols_def flip_def random_halves
        array_defs upt_small)
  have c: "\<not> self_perception (three_nodes\<lparr> attribute_space := [[- 1], [- 1], [- 1]] \<rparr>)"
    by (simp add: three_nodes_def self_perception_def upt_small)
  have d: "\<not> self_perception (final (hide 0 0 0 three_nodes))"
    by (simp add: three_nodes_def hide_def self_perception_def array_defs
        upt_small)
  show ?thesis using a b c d by (simp add: u)
qed

theorem self_perception_maintained_witness:
  "graph_ok two_nodes \<and> masks_shaped two_nodes \<and> self_perception two_nodes \<and>
   is_node two_nodes 0 \<and> is_node two_nodes 1 \<and>
   (\<exists>s1 g1. initialize_masks (two_nodes, halves) = Returned (s1, g1) \<and>
      masks_shaped s1 \<and> self_perception s1) \<and>
   self_perception (fst (final (connect 0 1 (two_nodes, halves)))) \<and>
   self_perception (fst (final (disconnect 0 1 (two_nodes, halves)))) \<and>
   self_perception (final (hide 0 1 0 two_nodes)) \<and>
   self_perception (final (reveal 0 1 0 two_nodes))"
proof -
  have a: "graph_ok two_nodes"
    by (simp add: two_nodes_def graph_ok_def is_node_def upt_small)
  have b: "matrix_shape (n_nodes two_nodes) (dimensions two_nodes) (attribute_space two_nodes)"
    "visibility two_nodes = ''random'' \<longrightarrow> loop_free two_nodes"
    by (simp_all add: two_nodes_def matrix_shape_def)
  have c: "masks_shaped two_nodes"
    by (simp add: two_nodes_def masks_shaped_def matrix_shape_def)
  have d: "self_perception two_nodes"
    by (simp add: two_nodes_def self_perception_def upt_small)
  have e: "is_node two_nodes 0" "is_node two_nodes 1" "(0::int) \<noteq> 1"
    by (simp_all add: two_nodes_def is_node_def)
  show ?thesis
    using a b c d e self_perception_maintained[of two_nodes halves two_nodes 0 1 halves 0]
    by blast
qed

subsection \<open>Normalized weights\<close>


lemma returnsD: "returns P f Q \<Longrightarrow> P s \<Longrightarrow> \<exists>s'. f s = Returned s' \<and> Q s'"
  by (simp add: returns_def)



lemma returns_hoare: "returns P f Q \<Longrightarrow> hoare P f Q"
  by (fastforce simp: returns_def hoare_def)

lemma returns_seq:
  "returns P f Q \<Longrightarrow> returns Q (in_order fs) R \<Longrightarrow> returns P (in_order (f # fs)) R"
  by (fastforce simp: returns_def)

lemma returns_nil: "(\<And>s. P s \<Longrightarrow> Q s) \<Longrightarrow> returns P (in_order []) Q"
  by (simp add: returns_def)




lemma hoare_weaken: "hoare P f Q \<Longrightarrow> (\<And>s. P' s \<Longrightarrow> P s) \<Longrightarrow> (\<And>s. Q s \<Longrightarrow> Q' s) \<Longrightarrow> hoare P' f Q'"
  by (simp add: hoare_def)

lemma returns_weaken:
  "returns P f Q \<Longrightarrow> (\<And>s. P' s \<Longrightarrow> P s) \<Longrightarrow> (\<And>s. Q s \<Longrightarrow> Q' s) \<Longrightarrow> returns P' f Q'"
  by (fastforce simp: returns_def)



































lemma no_draw_Returned: "f (fst w) = Returned s' \<Longrightarrow> no_draw f w = Returned (s', snd w)"
  by (simp add: no_draw_def)








lemma influences_cong: "graph s' = graph s \<Longrightarrow> influences s' a b = influences s a b"
  by (simp add: influences_def)











end
